theory Spec2Isabelle
  imports Main "HOL-Library.Word"
begin

section \<open>MessageQueue.h: a single-producer single-reader ring over shared memory\<close>

text \<open>
  The embedding follows \<^verbatim>\<open>src/fast_msgq/common/MessageQueue.h\<close> member by member.
  The target is LP64 (the Android 64-bit ABI): \<^verbatim>\<open>size_t\<close>, \<^verbatim>\<open>off_t\<close> and pointers are
  64 bits wide, \<^verbatim>\<open>int\<close> and \<^verbatim>\<open>uint32_t\<close> are 32 bits wide. A C \<^verbatim>\<open>int\<close> is kept as its
  32-bit pattern and read with \<open>sint\<close>; converting it to a 64-bit type sign-extends
  (\<open>scast\<close>), converting an unsigned 32-bit value zero-extends (\<open>ucast\<close>).
\<close>

subsection \<open>Machine types\<close>

type_synonym uint8_t = "8 word"
type_synonym uint32_t = "32 word"
type_synonym uint64_t = "64 word"
type_synonym size_t = "64 word"
type_synonym c_int = "32 word"
type_synonym off_t = "64 word"
type_synonym pointer = "64 word"

abbreviation (input) nullptr :: pointer where
  "nullptr \<equiv> 0"

definition MAP_FAILED :: pointer where
  "MAP_FAILED = - 1"

subsection \<open>The descriptor\<close>

text \<open>
  Modelled from the spec: \<^verbatim>\<open>hidl/MQDescriptor.h\<close> is included by the source but is not
  part of it, so the types \<^verbatim>\<open>GrantorDescriptor\<close> and \<^verbatim>\<open>MQDescriptor\<close> follow section 6 of
  the specification. A grantor has the fields fdIndex, offset and extent, each "unsigned"
  (taken as \<^verbatim>\<open>uint32_t\<close>); a descriptor carries the capacity and the quantum in bytes
  (\<^verbatim>\<open>size_t\<close>, as the source uses them), a native handle with an ordered array of file
  descriptors (absent when the handle is invalid) and the ordered grantor table.
\<close>

record GrantorDescriptor =
  fdIndex :: uint32_t
  offset :: uint32_t
  extent :: uint32_t

record MQDescriptor =
  mGrantors :: "GrantorDescriptor list"
  mHandle :: "c_int list option"
  mSize :: size_t
  mQuantum :: size_t

text \<open>
  Modelled from the spec: the accessors of the descriptor, as section 6 of the
  specification lists them (\<^verbatim>\<open>getSize\<close>, \<^verbatim>\<open>getQuantum\<close>, \<^verbatim>\<open>countGrantors\<close>, \<^verbatim>\<open>getGrantors\<close>,
  \<^verbatim>\<open>isHandleValid\<close>).
\<close>

definition getSize :: "MQDescriptor \<Rightarrow> size_t" where
  "getSize d = mSize d"

definition getQuantum :: "MQDescriptor \<Rightarrow> size_t" where
  "getQuantum d = mQuantum d"

definition countGrantors :: "MQDescriptor \<Rightarrow> nat" where
  "countGrantors d = length (mGrantors d)"

definition getGrantors :: "MQDescriptor \<Rightarrow> GrantorDescriptor list" where
  "getGrantors d = mGrantors d"

definition isHandleValid :: "MQDescriptor \<Rightarrow> bool" where
  "isHandleValid d = (mHandle d \<noteq> None)"

text \<open>
  Modelled from the spec: the positions in the grantor table are READ_POINTER = 0,
  WRITE_POINTER = 1 and DATA_RING = 2, and a descriptor has at least these three grantors.
\<close>

definition READPTRPOS :: uint32_t where
  "READPTRPOS = 0"

definition WRITEPTRPOS :: uint32_t where
  "WRITEPTRPOS = 1"

definition DATAPTRPOS :: uint32_t where
  "DATAPTRPOS = 2"

definition kMinGrantorCount :: nat where
  "kMinGrantorCount = 3"

subsection \<open>The process: memory, the operating system, failures\<close>

text \<open>
  The arguments of \<^verbatim>\<open>std::atomic::load\<close> and \<^verbatim>\<open>store\<close>, and of \<^verbatim>\<open>mmap\<close>.
\<close>

datatype memory_order =
    memory_order_relaxed
  | memory_order_consume
  | memory_order_acquire
  | memory_order_release
  | memory_order_acq_rel
  | memory_order_seq_cst

datatype prot = PROT_READ | PROT_WRITE

datatype map_flags = MAP_SHARED | MAP_PRIVATE

text \<open>
  What the endpoint does to the outside is recorded in order: every atomic access with the
  memory order the source passes, every \<^verbatim>\<open>mmap\<close> request (hint address, length, protection,
  flags, file descriptor, file offset) and every \<^verbatim>\<open>munmap\<close> request (address, length).
\<close>

datatype event =
    AtomicLoad pointer memory_order
  | AtomicStore pointer uint64_t memory_order
  | Mmap pointer size_t "prot list" map_flags c_int off_t
  | Munmap pointer size_t

text \<open>
  The memory the process can reach is a store keyed by address: the cells that hold a
  \<^verbatim>\<open>std::atomic<uint64_t>\<close> and the cells that hold a byte. An address with no cell is not
  mapped; nothing is mapped at the null address in the worlds the theorems speak about.
  The two counters and the ring are three objects of the shared memory, as the descriptor
  contract says; two mappings of one file page at two addresses are outside this model.
\<close>

record world =
  counters :: "pointer \<rightharpoonup> uint64_t"
  bytes :: "pointer \<rightharpoonup> uint8_t"
  trace :: "event list"

text \<open>
  The platform gives \<^verbatim>\<open>PAGE_SIZE\<close> (a macro of the system headers, not part of the source;
  the division by it is unsigned, its left operand being a \<^verbatim>\<open>uint32_t\<close>) and the answer of
  \<^verbatim>\<open>mmap\<close>, which may depend on everything requested so far, the request itself included.
\<close>

record platform =
  PAGE_SIZE :: uint32_t
  os_mmap :: "event list \<Rightarrow> pointer"

text \<open>
  Every way the source can leave its defined behaviour, or abort, is a value: an access
  through a pointer to no cell, an index outside a vector or array, a division by zero, a
  failed \<^verbatim>\<open>CHECK\<close>, and a \<^verbatim>\<open>memcpy\<close> that reads past the end of the caller's array.
\<close>

datatype error =
    SegFault pointer
  | OutOfBounds
  | DivisionByZero
  | CheckFailed
  | BufferOverread

type_synonym 'a action = "world \<Rightarrow> error + 'a \<times> world"

definition ret :: "'a \<Rightarrow> 'a action" where
  "ret x w = Inr (x, w)"

definition raise :: "error \<Rightarrow> 'a action" where
  "raise e w = Inl e"

definition andThen :: "'a action \<Rightarrow> ('a \<Rightarrow> 'b action) \<Rightarrow> 'b action" where
  "andThen m f w = (case m w of Inl e \<Rightarrow> Inl e | Inr (x, w') \<Rightarrow> f x w')"

definition record_event :: "event \<Rightarrow> unit action" where
  "record_event e w = Inr ((), w\<lparr>trace := trace w @ [e]\<rparr>)"

definition atomic_load :: "pointer \<Rightarrow> memory_order \<Rightarrow> uint64_t action" where
  "atomic_load p ord w =
     (case counters w p of
        None \<Rightarrow> Inl (SegFault p)
      | Some v \<Rightarrow> Inr (v, w\<lparr>trace := trace w @ [AtomicLoad p ord]\<rparr>))"

definition atomic_store :: "pointer \<Rightarrow> uint64_t \<Rightarrow> memory_order \<Rightarrow> unit action" where
  "atomic_store p v ord w =
     (case counters w p of
        None \<Rightarrow> Inl (SegFault p)
      | Some old \<Rightarrow>
          Inr ((), w\<lparr>counters := (counters w)(p \<mapsto> v),
                       trace := trace w @ [AtomicStore p v ord]\<rparr>))"

text \<open>
  \<^verbatim>\<open>memcpy(dst, src, n)\<close> into memory, byte by byte from the lowest address, and out of
  memory. Copying no byte touches nothing, whatever the addresses are.
\<close>

fun store_bytes :: "pointer \<Rightarrow> uint8_t list \<Rightarrow> (pointer \<rightharpoonup> uint8_t) \<Rightarrow> error + (pointer \<rightharpoonup> uint8_t)" where
  "store_bytes a [] h = Inr h"
| "store_bytes a (b # bs) h =
     (case h a of
        None \<Rightarrow> Inl (SegFault a)
      | Some old \<Rightarrow> store_bytes (a + 1) bs (h(a \<mapsto> b)))"

fun load_bytes :: "pointer \<Rightarrow> nat \<Rightarrow> (pointer \<rightharpoonup> uint8_t) \<Rightarrow> error + uint8_t list" where
  "load_bytes a 0 h = Inr []"
| "load_bytes a (Suc n) h =
     (case h a of
        None \<Rightarrow> Inl (SegFault a)
      | Some b \<Rightarrow> (case load_bytes (a + 1) n h of Inl e \<Rightarrow> Inl e | Inr bs \<Rightarrow> Inr (b # bs)))"

text \<open>
  \<open>memcpy_in dst data k n\<close> is \<^verbatim>\<open>memcpy(dst, data + k, n)\<close> for the caller's array
  \<open>data\<close>; \<open>memcpy_out src n\<close> is \<^verbatim>\<open>memcpy(data + k, src, n)\<close> and returns the \<open>n\<close> bytes
  it stores into the caller's array.
\<close>

definition memcpy_in :: "pointer \<Rightarrow> uint8_t list \<Rightarrow> nat \<Rightarrow> size_t \<Rightarrow> unit action" where
  "memcpy_in dst data k n w =
     (if length data < k + unat n then Inl BufferOverread
      else (case store_bytes dst (take (unat n) (drop k data)) (bytes w) of
              Inl e \<Rightarrow> Inl e
            | Inr h \<Rightarrow> Inr ((), w\<lparr>bytes := h\<rparr>)))"

definition memcpy_out :: "pointer \<Rightarrow> size_t \<Rightarrow> (uint8_t list) action" where
  "memcpy_out src n w =
     (case load_bytes src (unat n) (bytes w) of
        Inl e \<Rightarrow> Inl e
      | Inr bs \<Rightarrow> Inr (bs, w))"

definition mmap :: "platform \<Rightarrow> pointer \<Rightarrow> size_t \<Rightarrow> prot list \<Rightarrow> map_flags \<Rightarrow> c_int \<Rightarrow> off_t \<Rightarrow> pointer action" where
  "mmap pf hint len pr fl fd off w =
     (let t = trace w @ [Mmap hint len pr fl fd off]
      in Inr (os_mmap pf t, w\<lparr>trace := t\<rparr>))"

definition munmap :: "pointer \<Rightarrow> size_t \<Rightarrow> unit action" where
  "munmap a len = record_event (Munmap a len)"

definition CHECK :: "bool \<Rightarrow> unit action" where
  "CHECK c = (if c then ret () else raise CheckFailed)"

definition umod :: "uint64_t \<Rightarrow> uint64_t \<Rightarrow> uint64_t action" where
  "umod a b = (if b = 0 then raise DivisionByZero else ret (a mod b))"

definition vector_at :: "'a list \<Rightarrow> nat \<Rightarrow> 'a action" where
  "vector_at xs i = (if i < length xs then ret (xs ! i) else raise OutOfBounds)"

definition array_at :: "'a list \<Rightarrow> c_int \<Rightarrow> 'a action" where
  "array_at xs i =
     (if 0 \<le> sint i \<and> nat (sint i) < length xs then ret (xs ! nat (sint i))
      else raise OutOfBounds)"

subsection \<open>struct MessageQueue\<close>

record region =
  address :: pointer
  length_r :: size_t

record transaction =
  first :: region
  second :: region

record MessageQueue =
  mDesc :: MQDescriptor
  mRing :: pointer
  mReadPtr :: pointer
  mWritePtr :: pointer

text \<open>\<^verbatim>\<open>mDesc.getNativeHandle()->handle()\<close>: the handle's array, through a pointer.\<close>

definition getNativeHandle :: "MQDescriptor \<Rightarrow> (c_int list) action" where
  "getNativeHandle d = (case mHandle d of None \<Rightarrow> raise (SegFault nullptr) | Some h \<Rightarrow> ret h)"

definition mapGrantorDescr :: "platform \<Rightarrow> MessageQueue \<Rightarrow> uint32_t \<Rightarrow> pointer action" where
  "mapGrantorDescr pf q grantor_idx =
     andThen (getNativeHandle (mDesc q)) (\<lambda>handle.
     andThen (vector_at (getGrantors (mDesc q)) (unat grantor_idx)) (\<lambda>g.
     let fdIdx = (fdIndex g :: c_int) in
     if PAGE_SIZE pf = 0 then raise DivisionByZero else
     let mapOffset = ((offset g div PAGE_SIZE pf) * PAGE_SIZE pf :: c_int);
         mapLength = (offset g - mapOffset + extent g :: c_int)
     in
     andThen (array_at handle fdIdx) (\<lambda>fd.
     andThen (mmap pf 0 (scast mapLength) [PROT_READ, PROT_WRITE] MAP_SHARED fd (scast mapOffset))
       (\<lambda>addr.
     ret (if addr = MAP_FAILED then nullptr else addr + ucast (offset g - mapOffset))))))"

definition unmapGrantorDescr :: "platform \<Rightarrow> MessageQueue \<Rightarrow> pointer \<Rightarrow> uint32_t \<Rightarrow> unit action" where
  "unmapGrantorDescr pf q addr grantor_idx =
     andThen (getNativeHandle (mDesc q)) (\<lambda>handle.
     andThen (vector_at (getGrantors (mDesc q)) (unat grantor_idx)) (\<lambda>g.
     if PAGE_SIZE pf = 0 then raise DivisionByZero else
     let mapOffset = ((offset g div PAGE_SIZE pf) * PAGE_SIZE pf :: c_int);
         mapLength = (offset g - mapOffset + extent g :: c_int);
         baseAddress = addr - ucast (offset g - mapOffset)
     in
     if baseAddress \<noteq> nullptr then munmap baseAddress (scast mapLength) else ret ()))"

text \<open>
  The constructor. Its member initialiser list sets \<^verbatim>\<open>mDesc\<close> only, and the three pointer
  members have no initialiser, so they hold what the object's storage held before
  (\<open>raw\<close>) until the constructor assigns them. \<open>sizeofT\<close> is \<^verbatim>\<open>sizeof(T)\<close>.
\<close>

definition MessageQueue_ctor :: "platform \<Rightarrow> size_t \<Rightarrow> MessageQueue \<Rightarrow> MQDescriptor \<Rightarrow> MessageQueue action" where
  "MessageQueue_ctor pf sizeofT raw Desc =
     (let q0 = raw\<lparr>mDesc := Desc\<rparr> in
      if \<not> isHandleValid Desc \<or> countGrantors Desc < kMinGrantorCount \<or> getQuantum Desc \<noteq> sizeofT
      then ret q0
      else
        andThen (mapGrantorDescr pf q0 READPTRPOS) (\<lambda>p1.
        let q1 = q0\<lparr>mReadPtr := p1\<rparr> in
        andThen (CHECK (mReadPtr q1 \<noteq> nullptr)) (\<lambda>_.
        andThen (mapGrantorDescr pf q1 WRITEPTRPOS) (\<lambda>p2.
        let q2 = q1\<lparr>mWritePtr := p2\<rparr> in
        andThen (CHECK (mWritePtr q2 \<noteq> nullptr)) (\<lambda>_.
        andThen (atomic_store (mReadPtr q2) 0 memory_order_acquire) (\<lambda>_.
        andThen (atomic_store (mWritePtr q2) 0 memory_order_acquire) (\<lambda>_.
        andThen (mapGrantorDescr pf q2 DATAPTRPOS) (\<lambda>p3.
        let q3 = q2\<lparr>mRing := p3\<rparr> in
        andThen (CHECK (mRing q3 \<noteq> nullptr)) (\<lambda>_.
        ret q3)))))))))"

definition MessageQueue_dtor :: "platform \<Rightarrow> MessageQueue \<Rightarrow> unit action" where
  "MessageQueue_dtor pf q =
     andThen (if mReadPtr q \<noteq> nullptr then unmapGrantorDescr pf q (mReadPtr q) READPTRPOS else ret ()) (\<lambda>_.
     andThen (if mWritePtr q \<noteq> nullptr then unmapGrantorDescr pf q (mWritePtr q) WRITEPTRPOS else ret ()) (\<lambda>_.
     if mRing q \<noteq> nullptr then unmapGrantorDescr pf q (mRing q) DATAPTRPOS else ret ()))"

text \<open>
  The two loads of \<open>availableToRead\<close> are operands of one subtraction; they are recorded
  from left to right.
\<close>

definition availableToRead :: "MessageQueue \<Rightarrow> size_t action" where
  "availableToRead q =
     andThen (atomic_load (mWritePtr q) memory_order_relaxed) (\<lambda>writePtr.
     andThen (atomic_load (mReadPtr q) memory_order_relaxed) (\<lambda>readPtr.
     ret (writePtr - readPtr)))"

definition availableToWrite :: "MessageQueue \<Rightarrow> size_t action" where
  "availableToWrite q =
     andThen (availableToRead q) (\<lambda>avail. ret (getSize (mDesc q) - avail))"

definition beginWrite :: "MessageQueue \<Rightarrow> size_t \<Rightarrow> transaction action" where
  "beginWrite q nBytesDesired =
     andThen (atomic_load (mReadPtr q) memory_order_acquire) (\<lambda>readPtr.
     andThen (atomic_load (mWritePtr q) memory_order_relaxed) (\<lambda>writePtr.
     andThen (umod writePtr (getSize (mDesc q))) (\<lambda>writeOffset.
     let contiguous = getSize (mDesc q) - writeOffset in
     ret (if contiguous < nBytesDesired
          then \<lparr>first = \<lparr>address = mRing q + writeOffset, length_r = contiguous\<rparr>,
                second = \<lparr>address = mRing q, length_r = nBytesDesired - contiguous\<rparr>\<rparr>
          else \<lparr>first = \<lparr>address = mRing q + writeOffset, length_r = nBytesDesired\<rparr>,
                second = \<lparr>address = 0, length_r = 0\<rparr>\<rparr>))))"

definition commitWrite :: "MessageQueue \<Rightarrow> size_t \<Rightarrow> unit action" where
  "commitWrite q nBytesWritten =
     andThen (atomic_load (mWritePtr q) memory_order_relaxed) (\<lambda>writePtr.
     atomic_store (mWritePtr q) (writePtr + nBytesWritten) memory_order_release)"

definition writeBytes :: "MessageQueue \<Rightarrow> uint8_t list \<Rightarrow> size_t \<Rightarrow> size_t action" where
  "writeBytes q data nBytes =
     andThen (beginWrite q nBytes) (\<lambda>tx.
     andThen (memcpy_in (address (first tx)) data 0 (length_r (first tx))) (\<lambda>_.
     andThen (memcpy_in (address (second tx)) data (unat (length_r (first tx))) (length_r (second tx))) (\<lambda>_.
     let result = length_r (first tx) + length_r (second tx) in
     andThen (commitWrite q result) (\<lambda>_.
     ret result))))"

definition beginRead :: "MessageQueue \<Rightarrow> size_t \<Rightarrow> transaction action" where
  "beginRead q nBytesDesired =
     andThen (atomic_load (mWritePtr q) memory_order_acquire) (\<lambda>writePtr.
     andThen (atomic_load (mReadPtr q) memory_order_relaxed) (\<lambda>readPtr.
     andThen (umod readPtr (getSize (mDesc q))) (\<lambda>readOffset.
     let contiguous = getSize (mDesc q) - readOffset in
     ret (if contiguous < nBytesDesired
          then \<lparr>first = \<lparr>address = mRing q + readOffset, length_r = contiguous\<rparr>,
                second = \<lparr>address = mRing q, length_r = nBytesDesired - contiguous\<rparr>\<rparr>
          else \<lparr>first = \<lparr>address = mRing q + readOffset, length_r = nBytesDesired\<rparr>,
                second = \<lparr>address = 0, length_r = 0\<rparr>\<rparr>))))"

definition commitRead :: "MessageQueue \<Rightarrow> size_t \<Rightarrow> unit action" where
  "commitRead q nBytesRead =
     andThen (atomic_load (mReadPtr q) memory_order_relaxed) (\<lambda>readPtr.
     atomic_store (mReadPtr q) (readPtr + nBytesRead) memory_order_release)"

text \<open>
  \<open>readBytes\<close> returns, with its result, the bytes it stores into the caller's array
  \<^verbatim>\<open>data[0 .. size)\<close> (\<open>nBytes\<close> is the source's parameter \<^verbatim>\<open>size\<close>).
\<close>

definition readBytes :: "MessageQueue \<Rightarrow> size_t \<Rightarrow> (uint8_t list \<times> size_t) action" where
  "readBytes q nBytes =
     andThen (beginRead q nBytes) (\<lambda>tx.
     andThen (memcpy_out (address (first tx)) (length_r (first tx))) (\<lambda>bs1.
     andThen (memcpy_out (address (second tx)) (length_r (second tx))) (\<lambda>bs2.
     let result = length_r (first tx) + length_r (second tx) in
     andThen (commitRead q result) (\<lambda>_.
     ret (bs1 @ bs2, result)))))"

text \<open>
  \<^verbatim>\<open>write(const T* data, size_t count)\<close> and \<^verbatim>\<open>read(T* data, size_t count)\<close>; the caller's
  array of records is the list of its bytes. A refused \<open>read_n\<close> stores nothing.
\<close>

definition write_n :: "size_t \<Rightarrow> MessageQueue \<Rightarrow> uint8_t list \<Rightarrow> size_t \<Rightarrow> bool action" where
  "write_n sizeofT q data count =
     andThen (availableToWrite q) (\<lambda>avail.
     if avail < sizeofT * count then ret False
     else andThen (writeBytes q data (sizeofT * count)) (\<lambda>n. ret (n = sizeofT * count)))"

definition read_n :: "size_t \<Rightarrow> MessageQueue \<Rightarrow> size_t \<Rightarrow> (bool \<times> uint8_t list) action" where
  "read_n sizeofT q count =
     andThen (availableToRead q) (\<lambda>avail.
     if avail < sizeofT * count then ret (False, [])
     else andThen (readBytes q (sizeofT * count)) (\<lambda>(bs, n). ret (n = sizeofT * count, bs)))"

definition write_one :: "size_t \<Rightarrow> MessageQueue \<Rightarrow> uint8_t list \<Rightarrow> bool action" where
  "write_one sizeofT q data = write_n sizeofT q data 1"

definition read_one :: "size_t \<Rightarrow> MessageQueue \<Rightarrow> (bool \<times> uint8_t list) action" where
  "read_one sizeofT q = read_n sizeofT q 1"

definition getQuantumSize :: "MessageQueue \<Rightarrow> size_t" where
  "getQuantumSize q = getQuantum (mDesc q)"

definition getQuantumCount :: "MessageQueue \<Rightarrow> error + size_t" where
  "getQuantumCount q =
     (if getQuantum (mDesc q) = 0 then Inl DivisionByZero
      else Inr (getSize (mDesc q) div getQuantum (mDesc q)))"

definition isValid :: "MessageQueue \<Rightarrow> bool" where
  "isValid q = (mRing q \<noteq> nullptr \<and> mReadPtr q \<noteq> nullptr \<and> mWritePtr q \<noteq> nullptr)"

subsection \<open>Notions the properties are stated with\<close>

text \<open>
  The memory after \<^verbatim>\<open>memcpy\<close> has stored the bytes \<open>bs\<close> from address \<open>a\<close> on.
\<close>

definition overlay :: "pointer \<Rightarrow> uint8_t list \<Rightarrow> (pointer \<rightharpoonup> uint8_t) \<Rightarrow> (pointer \<rightharpoonup> uint8_t)" where
  "overlay a bs h = (\<lambda>x. if unat (x - a) < length bs then Some (bs ! unat (x - a)) else h x)"

text \<open>
  \<open>copied ring c off n data h h'\<close>: memory \<open>h'\<close> is memory \<open>h\<close> with the first \<open>n\<close> bytes of
  \<open>data\<close> at the ring indices \<open>off\<close>, \<open>off + 1\<close>, ... taken modulo the capacity \<open>c\<close>, and
  nothing else changed.
\<close>

definition copied :: "pointer \<Rightarrow> nat \<Rightarrow> nat \<Rightarrow> nat \<Rightarrow> uint8_t list \<Rightarrow> (pointer \<rightharpoonup> uint8_t) \<Rightarrow> (pointer \<rightharpoonup> uint8_t) \<Rightarrow> bool" where
  "copied ring c off n data h h' \<longleftrightarrow>
     (\<forall>i<n. h' (ring + of_nat ((off + i) mod c)) = Some (data ! i)) \<and>
     (\<forall>x. (\<forall>i<n. x \<noteq> ring + of_nat ((off + i) mod c)) \<longrightarrow> h' x = h x)"

text \<open>
  An endpoint in working order, as section 3 of the specification describes it: the three
  pointers are set, the two counters are distinct cells that hold \<open>W\<close> and \<open>R\<close>, the capacity
  is positive and every byte of the ring is mapped.
\<close>

definition valid_endpoint :: "MessageQueue \<Rightarrow> world \<Rightarrow> uint64_t \<Rightarrow> uint64_t \<Rightarrow> bool" where
  "valid_endpoint q w W R \<longleftrightarrow>
     isValid q \<and> mReadPtr q \<noteq> mWritePtr q \<and>
     counters w (mWritePtr q) = Some W \<and> counters w (mReadPtr q) = Some R \<and>
     getSize (mDesc q) \<noteq> 0 \<and>
     (\<forall>i<unat (getSize (mDesc q)). bytes w (mRing q + of_nat i) \<noteq> None)"

subsection \<open>A concrete queue\<close>

text \<open>
  One file descriptor holds the read counter at offset 0, the write counter at offset 8 and
  a ring of 8 one-byte records on the next page; the operating system answers the n-th
  event of the process with the address \<open>0x10000 * n\<close>.
\<close>

definition ex_desc :: MQDescriptor where
  "ex_desc = \<lparr>mGrantors = [\<lparr>fdIndex = 0, offset = 0, extent = 8\<rparr>,
                          \<lparr>fdIndex = 0, offset = 8, extent = 8\<rparr>,
                          \<lparr>fdIndex = 0, offset = 4096, extent = 8\<rparr>],
              mHandle = Some [5], mSize = 8, mQuantum = 1\<rparr>"

definition ex_platform :: platform where
  "ex_platform = \<lparr>PAGE_SIZE = 4096, os_mmap = (\<lambda>t. 0x10000 * of_nat (length t))\<rparr>"

definition ex_queue :: MessageQueue where
  "ex_queue = \<lparr>mDesc = ex_desc, mRing = 0x50000, mReadPtr = 0x10000, mWritePtr = 0x20008\<rparr>"

definition ex_world :: "uint64_t \<Rightarrow> uint64_t \<Rightarrow> uint8_t list \<Rightarrow> world" where
  "ex_world W R ring =
     \<lparr>counters = [0x10000 \<mapsto> R, 0x20008 \<mapsto> W],
      bytes = overlay 0x50000 ring Map.empty,
      trace = []\<rparr>"

text \<open>
  The transaction as section 4.3 of the specification writes it, for a ring at \<open>ring\<close> of
  capacity \<open>C\<close>, a position \<open>p\<close> and a desired length \<open>n\<close>:
  \<^verbatim>\<open>((ring + offset, head_run), (ring, tail_run))\<close>.
\<close>

definition spec_transaction :: "pointer \<Rightarrow> size_t \<Rightarrow> uint64_t \<Rightarrow> size_t \<Rightarrow> transaction" where
  "spec_transaction ring C p n =
     \<lparr>first = \<lparr>address = ring + p mod C, length_r = min n (C - p mod C)\<rparr>,
      second = \<lparr>address = ring, length_r = n - min n (C - p mod C)\<rparr>\<rparr>"

text \<open>
  The storage of an endpoint object before its constructor runs: all zero, or holding what
  an earlier use left there.
\<close>

definition null_storage :: MessageQueue where
  "null_storage = \<lparr>mDesc = ex_desc, mRing = 0, mReadPtr = 0, mWritePtr = 0\<rparr>"

definition stale_storage :: MessageQueue where
  "stale_storage = \<lparr>mDesc = ex_desc, mRing = 0xDEAD0, mReadPtr = 0xBEEF0, mWritePtr = 0xF00D0\<rparr>"

text \<open>The world after the endpoint of the concrete queue has been constructed.\<close>

definition ex_constructed :: world where
  "ex_constructed =
     \<lparr>counters = [0x10000 \<mapsto> 0, 0x20008 \<mapsto> 0],
      bytes = bytes (ex_world 77 99 [0, 0, 0, 0, 0, 0, 0, 0]),
      trace = [Mmap 0 8 [PROT_READ, PROT_WRITE] MAP_SHARED 5 0,
               Mmap 0 16 [PROT_READ, PROT_WRITE] MAP_SHARED 5 0,
               AtomicStore 0x10000 0 memory_order_acquire,
               AtomicStore 0x20008 0 memory_order_acquire,
               Mmap 0 8 [PROT_READ, PROT_WRITE] MAP_SHARED 5 4096]\<rparr>"

text \<open>The concrete queue with a first grantor of \<open>2 ^ 31\<close> bytes.\<close>

definition big_grantor_queue :: MessageQueue where
  "big_grantor_queue =
     ex_queue\<lparr>mDesc := ex_desc\<lparr>mGrantors := [\<lparr>fdIndex = 0, offset = 0, extent = 0x80000000\<rparr>]\<rparr>\<rparr>"

text \<open>The atomic stores among the events, in order.\<close>

definition atomic_stores :: "event list \<Rightarrow> event list" where
  "atomic_stores t = filter (\<lambda>e. case e of AtomicStore p v ord \<Rightarrow> True | _ \<Rightarrow> False) t"

text \<open>The world an action that returned has left.\<close>

definition world_after :: "(error + 'a \<times> world) \<Rightarrow> world" where
  "world_after r = snd (projr r)"

text \<open>
  The concrete queue for records of four bytes, and the concrete queue with capacity 0 (the
  endpoint the constructor builds from the concrete descriptor with its size set to 0).
\<close>

definition ex_queue4 :: MessageQueue where
  "ex_queue4 = ex_queue\<lparr>mDesc := ex_desc\<lparr>mQuantum := 4\<rparr>\<rparr>"

definition ex_queue0 :: MessageQueue where
  "ex_queue0 = ex_queue\<lparr>mDesc := ex_desc\<lparr>mSize := 0\<rparr>\<rparr>"

section \<open>Properties\<close>

subsection \<open>The operations in closed form\<close>

lemma availableToRead_eq:
  assumes "counters w (mWritePtr q) = Some W" and "counters w (mReadPtr q) = Some R"
  shows "availableToRead q w =
     Inr (W - R, w\<lparr>trace := trace w @ [AtomicLoad (mWritePtr q) memory_order_relaxed,
                                         AtomicLoad (mReadPtr q) memory_order_relaxed]\<rparr>)"
  using assms by (simp add: availableToRead_def andThen_def atomic_load_def ret_def)

lemma availableToWrite_eq:
  assumes "counters w (mWritePtr q) = Some W" and "counters w (mReadPtr q) = Some R"
  shows "availableToWrite q w =
     Inr (getSize (mDesc q) - (W - R),
          w\<lparr>trace := trace w @ [AtomicLoad (mWritePtr q) memory_order_relaxed,
                                AtomicLoad (mReadPtr q) memory_order_relaxed]\<rparr>)"
  using assms by (simp add: availableToWrite_def availableToRead_eq andThen_def ret_def)

lemma unat_of_nat64: "i < 2 ^ 64 \<Longrightarrow> unat (of_nat i :: 64 word) = i"
  by (simp add: unat_of_nat)

lemma unat_minus_one64: "(x :: 64 word) \<noteq> 0 \<Longrightarrow> unat (x - 1) = unat x - 1"
  by (simp add: unat_minus_one)

lemma overlay_Cons:
  assumes "Suc (length bs) \<le> 2 ^ 64"
  shows "overlay (a + 1) bs (h(a \<mapsto> b)) = overlay a (b # bs) h"
proof (rule ext)
  fix x
  show "overlay (a + 1) bs (h(a \<mapsto> b)) x = overlay a (b # bs) h x"
  proof (cases "x = a")
    case True
    have "unat (- 1 :: 64 word) = 2 ^ 64 - 1"
      using unat_minus_one [of "0 :: 64 word"] by (simp add: unsigned_minus_1_eq_mask mask_eq_exp_minus_1)
    with assms True show ?thesis by (simp add: overlay_def)
  next
    case False
    then have nz: "x - a \<noteq> 0" by simp
    have eq: "x - (a + 1) = (x - a) - 1" by simp
    have u: "unat (x - (a + 1)) = unat (x - a) - 1"
      unfolding eq by (rule unat_minus_one64 [OF nz])
    have pos: "0 < unat (x - a)" using nz by (simp add: unat_gt_0)
    from False u pos show ?thesis
      by (auto simp: overlay_def nth_Cons')
  qed
qed

lemma store_bytes_overlay:
  assumes "\<forall>i<length bs. h (a + of_nat i) \<noteq> None" and "length bs \<le> 2 ^ 64"
  shows "store_bytes a bs h = Inr (overlay a bs h)"
  using assms
proof (induction bs arbitrary: a h)
  case Nil
  then show ?case by (simp add: overlay_def)
next
  case (Cons b bs)
  from Cons.prems(1) have "h (a + of_nat 0) \<noteq> None" by blast
  then obtain old where old: "h a = Some old" by auto
  have mapped: "\<forall>i<length bs. (h(a \<mapsto> b)) (a + 1 + of_nat i) \<noteq> None"
  proof (intro allI impI)
    fix i assume "i < length bs"
    then have "Suc i < length (b # bs)" by simp
    with Cons.prems(1) have "h (a + of_nat (Suc i)) \<noteq> None" by blast
    then show "(h(a \<mapsto> b)) (a + 1 + of_nat i) \<noteq> None" by (simp add: add.assoc)
  qed
  from Cons.prems(2) have len: "length bs \<le> 2 ^ 64" and suc: "Suc (length bs) \<le> 2 ^ 64" by simp_all
  have "store_bytes (a + 1) bs (h(a \<mapsto> b)) = Inr (overlay (a + 1) bs (h(a \<mapsto> b)))"
    by (rule Cons.IH [OF mapped len])
  with old show ?case by (simp add: overlay_Cons [OF suc])
qed

lemma load_bytes_map:
  assumes "\<forall>i<n. h (a + of_nat i) \<noteq> None"
  shows "load_bytes a n h = Inr (map (\<lambda>i. the (h (a + of_nat i))) [0..<n])"
  using assms
proof (induction n arbitrary: a)
  case 0
  then show ?case by simp
next
  case (Suc n)
  from Suc.prems have "h (a + of_nat 0) \<noteq> None" by blast
  then obtain b where b: "h a = Some b" by auto
  have mapped: "\<forall>i<n. h (a + 1 + of_nat i) \<noteq> None"
  proof (intro allI impI)
    fix i assume "i < n"
    then have "Suc i < Suc n" by simp
    with Suc.prems have "h (a + of_nat (Suc i)) \<noteq> None" by blast
    then show "h (a + 1 + of_nat i) \<noteq> None" by (simp add: add.assoc)
  qed
  have "load_bytes (a + 1) n h = Inr (map (\<lambda>i. the (h (a + 1 + of_nat i))) [0..<n])"
    by (rule Suc.IH [OF mapped])
  moreover have "map (\<lambda>i. the (h (a + of_nat i))) [0..<Suc n] =
                 the (h a) # map (\<lambda>i. the (h (a + 1 + of_nat i))) [0..<n]"
    by (simp add: map_upt_Suc add.assoc del: upt_Suc)
  ultimately show ?case using b by (simp del: upt_Suc)
qed

lemma of_nat64_inj: "i < 2 ^ 64 \<Longrightarrow> j < 2 ^ 64 \<Longrightarrow> (of_nat i :: 64 word) = of_nat j \<Longrightarrow> i = j"
  by (metis unat_of_nat64)

lemma overlay_at:
  assumes "i < length bs" and "length bs \<le> 2 ^ 64"
  shows "overlay a bs h (a + of_nat i) = Some (bs ! i)"
proof -
  from assms have "i < 2 ^ 64" by simp
  then have "unat (of_nat i :: 64 word) = i" by (rule unat_of_nat64)
  with assms(1) show ?thesis by (simp add: overlay_def)
qed

lemma overlay_other:
  assumes "\<forall>i<length bs. x \<noteq> a + of_nat i"
  shows "overlay a bs h x = h x"
proof (cases "unat (x - a) < length bs")
  case True
  with assms have "x \<noteq> a + of_nat (unat (x - a))" by blast
  then show ?thesis by simp
next
  case False
  then show ?thesis by (simp add: overlay_def)
qed

lemma copied_nowrap:
  assumes "off + n \<le> c" and "c < 2 ^ 64" and "n \<le> length data"
  shows "copied ring c off n data h (overlay (ring + of_nat off) (take n data) h)"
  unfolding copied_def
proof (intro conjI allI impI)
  fix i assume i: "i < n"
  with assms have m: "(off + i) mod c = off + i" by simp
  from i assms have "overlay (ring + of_nat off) (take n data) h (ring + of_nat off + of_nat i) = Some (take n data ! i)"
    by (intro overlay_at) simp_all
  with i m show "overlay (ring + of_nat off) (take n data) h (ring + of_nat ((off + i) mod c)) = Some (data ! i)"
    by (simp add: add.assoc)
next
  fix x assume x: "\<forall>i<n. x \<noteq> ring + of_nat ((off + i) mod c)"
  have "\<forall>i<length (take n data). x \<noteq> ring + of_nat off + of_nat i"
  proof (intro allI impI)
    fix i assume "i < length (take n data)"
    then have i: "i < n" by simp
    with assms have m: "(off + i) mod c = off + i" by simp
    from x i have "x \<noteq> ring + of_nat ((off + i) mod c)" by blast
    with m show "x \<noteq> ring + of_nat off + of_nat i" by (simp add: add.assoc)
  qed
  then show "overlay (ring + of_nat off) (take n data) h x = h x"
    by (rule overlay_other)
qed

lemma copied_wrap:
  assumes off: "off < c" and wrap: "c - off < n" and n: "n \<le> c" and c: "c < 2 ^ 64"
    and len: "n \<le> length data"
  shows "copied ring c off n data h
           (overlay ring (take (n - (c - off)) (drop (c - off) data))
              (overlay (ring + of_nat off) (take (c - off) data) h))"
  unfolding copied_def
proof (intro conjI allI impI)
  let ?B1 = "take (c - off) data"
  let ?B2 = "take (n - (c - off)) (drop (c - off) data)"
  let ?h1 = "overlay (ring + of_nat off) ?B1 h"
  have l1: "length ?B1 = c - off" using wrap len by simp
  have l2: "length ?B2 = n - (c - off)" using wrap len by simp
  fix i assume i: "i < n"
  show "overlay ring ?B2 ?h1 (ring + of_nat ((off + i) mod c)) = Some (data ! i)"
  proof (cases "i < c - off")
    case True
    then have m: "(off + i) mod c = off + i" by simp
    have "\<forall>j<length ?B2. ring + of_nat (off + i) \<noteq> ring + of_nat j"
    proof (intro allI impI)
      fix j assume "j < length ?B2"
      with l2 n off have "j < off" by simp
      then have "off + i \<noteq> j" by simp
      moreover have "off + i < 2 ^ 64" using True c off by simp
      moreover have "j < 2 ^ 64" using \<open>j < off\<close> off c by simp
      ultimately have "(of_nat (off + i) :: 64 word) \<noteq> of_nat j" using of_nat64_inj by blast
      then show "ring + of_nat (off + i) \<noteq> ring + of_nat j" by simp
    qed
    then have "overlay ring ?B2 ?h1 (ring + of_nat (off + i)) = ?h1 (ring + of_nat (off + i))"
      by (rule overlay_other)
    also have "\<dots> = ?h1 (ring + of_nat off + of_nat i)" by (simp add: add.assoc)
    also have "\<dots> = Some (?B1 ! i)"
      using True l1 c by (intro overlay_at) simp_all
    also have "?B1 ! i = data ! i" using True by simp
    finally show ?thesis using m by simp
  next
    case False
    then have ge: "c - off \<le> i" by simp
    have e: "off + i = (i - (c - off)) + c" using ge off by simp
    have k: "i - (c - off) < c" using i n by simp
    have "(off + i) mod c = ((i - (c - off)) + c) mod c" by (simp only: e)
    also have "\<dots> = (i - (c - off)) mod c" by (rule mod_add_self2)
    also have "\<dots> = i - (c - off)" using k by (rule mod_less)
    finally have m: "(off + i) mod c = i - (c - off)" .
    have "i - (c - off) < n - (c - off)" using i ge by arith
    then have lt: "i - (c - off) < length ?B2" by (simp only: l2)
    have "overlay ring ?B2 ?h1 (ring + of_nat (i - (c - off))) = Some (?B2 ! (i - (c - off)))"
      using lt l2 n c by (intro overlay_at) simp_all
    also have "?B2 ! (i - (c - off)) = data ! i"
      using lt ge len wrap by simp
    finally show ?thesis using m by simp
  qed
next
  let ?B1 = "take (c - off) data"
  let ?B2 = "take (n - (c - off)) (drop (c - off) data)"
  let ?h1 = "overlay (ring + of_nat off) ?B1 h"
  have l1: "length ?B1 = c - off" using wrap len by simp
  have l2: "length ?B2 = n - (c - off)" using wrap len by simp
  fix x assume x: "\<forall>i<n. x \<noteq> ring + of_nat ((off + i) mod c)"
  have "\<forall>j<length ?B2. x \<noteq> ring + of_nat j"
  proof (intro allI impI)
    fix j assume "j < length ?B2"
    with l2 have j: "j < n - (c - off)" by simp
    then have "j + (c - off) < n" by simp
    with x have "x \<noteq> ring + of_nat ((off + (j + (c - off))) mod c)" by blast
    moreover have "(off + (j + (c - off))) mod c = j"
      using off j n by (simp add: add.commute add.left_commute)
    ultimately show "x \<noteq> ring + of_nat j" by simp
  qed
  then have "overlay ring ?B2 ?h1 x = ?h1 x" by (rule overlay_other)
  also have "?h1 x = h x"
  proof (rule overlay_other, intro allI impI)
    fix i assume "i < length ?B1"
    with l1 have i: "i < c - off" by simp
    with wrap have "i < n" by simp
    with x have "x \<noteq> ring + of_nat ((off + i) mod c)" by blast
    moreover have "(off + i) mod c = off + i" using i by simp
    ultimately show "x \<noteq> ring + of_nat off + of_nat i" by (simp add: add.assoc)
  qed
  finally show "overlay ring ?B2 ?h1 x = h x" .
qed

lemma memcpy_in_ok:
  assumes "k + unat n \<le> length data" and "\<forall>i<unat n. bytes w (dst + of_nat i) \<noteq> None"
  shows "memcpy_in dst data k n w =
           Inr ((), w\<lparr>bytes := overlay dst (take (unat n) (drop k data)) (bytes w)\<rparr>)"
proof -
  have l: "length (take (unat n) (drop k data)) = unat n" using assms(1) by simp
  have "unat n < 2 ^ 64" using unsigned_less [of n] by simp
  then have "length (take (unat n) (drop k data)) \<le> 2 ^ 64" by (simp only: l)
  moreover have "\<forall>i<length (take (unat n) (drop k data)). bytes w (dst + of_nat i) \<noteq> None"
    using assms(2) by (simp only: l)
  ultimately have "store_bytes dst (take (unat n) (drop k data)) (bytes w) =
                   Inr (overlay dst (take (unat n) (drop k data)) (bytes w))"
    by (intro store_bytes_overlay)
  with assms(1) show ?thesis by (simp add: memcpy_in_def)
qed

lemma memcpy_in_zero: "memcpy_in dst data k 0 w = (if length data < k then Inl BufferOverread else Inr ((), w))"
  by (simp add: memcpy_in_def)

lemma memcpy_out_ok:
  assumes "\<forall>i<unat n. bytes w (src + of_nat i) \<noteq> None"
  shows "memcpy_out src n w = Inr (map (\<lambda>i. the (bytes w (src + of_nat i))) [0..<unat n], w)"
  using load_bytes_map [OF assms] by (simp add: memcpy_out_def)

lemma beginWrite_eq:
  assumes "counters w (mWritePtr q) = Some W" and "counters w (mReadPtr q) = Some R"
    and "getSize (mDesc q) \<noteq> 0"
  shows "beginWrite q n w =
     Inr (if getSize (mDesc q) - W mod getSize (mDesc q) < n
          then \<lparr>first = \<lparr>address = mRing q + W mod getSize (mDesc q),
                          length_r = getSize (mDesc q) - W mod getSize (mDesc q)\<rparr>,
                second = \<lparr>address = mRing q,
                           length_r = n - (getSize (mDesc q) - W mod getSize (mDesc q))\<rparr>\<rparr>
          else \<lparr>first = \<lparr>address = mRing q + W mod getSize (mDesc q), length_r = n\<rparr>,
                second = \<lparr>address = 0, length_r = 0\<rparr>\<rparr>,
          w\<lparr>trace := trace w @ [AtomicLoad (mReadPtr q) memory_order_acquire,
                                AtomicLoad (mWritePtr q) memory_order_relaxed]\<rparr>)"
  using assms by (simp add: beginWrite_def andThen_def atomic_load_def umod_def ret_def Let_def)

lemma beginRead_eq:
  assumes "counters w (mWritePtr q) = Some W" and "counters w (mReadPtr q) = Some R"
    and "getSize (mDesc q) \<noteq> 0"
  shows "beginRead q n w =
     Inr (if getSize (mDesc q) - R mod getSize (mDesc q) < n
          then \<lparr>first = \<lparr>address = mRing q + R mod getSize (mDesc q),
                          length_r = getSize (mDesc q) - R mod getSize (mDesc q)\<rparr>,
                second = \<lparr>address = mRing q,
                           length_r = n - (getSize (mDesc q) - R mod getSize (mDesc q))\<rparr>\<rparr>
          else \<lparr>first = \<lparr>address = mRing q + R mod getSize (mDesc q), length_r = n\<rparr>,
                second = \<lparr>address = 0, length_r = 0\<rparr>\<rparr>,
          w\<lparr>trace := trace w @ [AtomicLoad (mWritePtr q) memory_order_acquire,
                                AtomicLoad (mReadPtr q) memory_order_relaxed]\<rparr>)"
  using assms by (simp add: beginRead_def andThen_def atomic_load_def umod_def ret_def Let_def)

lemma commitWrite_eq:
  assumes "counters w (mWritePtr q) = Some W"
  shows "commitWrite q n w =
     Inr ((), w\<lparr>counters := (counters w)(mWritePtr q \<mapsto> W + n),
                  trace := trace w @ [AtomicLoad (mWritePtr q) memory_order_relaxed,
                                      AtomicStore (mWritePtr q) (W + n) memory_order_release]\<rparr>)"
  using assms by (simp add: commitWrite_def andThen_def atomic_load_def atomic_store_def)

lemma commitRead_eq:
  assumes "counters w (mReadPtr q) = Some R"
  shows "commitRead q n w =
     Inr ((), w\<lparr>counters := (counters w)(mReadPtr q \<mapsto> R + n),
                  trace := trace w @ [AtomicLoad (mReadPtr q) memory_order_relaxed,
                                      AtomicStore (mReadPtr q) (R + n) memory_order_release]\<rparr>)"
  using assms by (simp add: commitRead_def andThen_def atomic_load_def atomic_store_def)

text \<open>Ring offsets as numbers.\<close>

lemma ring_offset:
  fixes C p :: "64 word"
  assumes "C \<noteq> 0"
  shows "unat (p mod C) = unat p mod unat C"
    and "unat (p mod C) < unat C"
    and "unat (C - p mod C) = unat C - unat p mod unat C"
    and "unat C < 2 ^ 64"
    and "0 < unat C"
proof -
  show m: "unat (p mod C) = unat p mod unat C" by (rule unat_mod)
  have pos: "0 < unat C" using assms by (simp add: unat_gt_0)
  then show "0 < unat C" .
  show lt: "unat (p mod C) < unat C" unfolding m using pos by simp
  have "p mod C \<le> C" using lt by (simp add: word_le_nat_alt)
  then show "unat (C - p mod C) = unat C - unat p mod unat C"
    by (simp add: unat_sub m)
  show "unat C < 2 ^ 64" using unsigned_less [of C] by simp
qed

lemma overlay_mapped: "h x \<noteq> None \<Longrightarrow> overlay a bs h x \<noteq> None"
  by (simp add: overlay_def)

lemma fits_before_end: "n \<le> c - off \<Longrightarrow> off < c \<Longrightarrow> off + n \<le> (c :: nat)"
  by simp

lemma writeBytes_effect:
  assumes W: "counters w (mWritePtr q) = Some W" and R: "counters w (mReadPtr q) = Some R"
    and C: "getSize (mDesc q) \<noteq> 0"
    and ring: "\<forall>i<unat (getSize (mDesc q)). bytes w (mRing q + of_nat i) \<noteq> None"
    and n: "unat n \<le> unat (getSize (mDesc q))" and len: "unat n \<le> length data"
  shows "\<exists>w'. writeBytes q data n w = Inr (n, w')
            \<and> counters w' = (counters w)(mWritePtr q \<mapsto> W + n)
            \<and> copied (mRing q) (unat (getSize (mDesc q))) (unat W mod unat (getSize (mDesc q)))
                 (unat n) data (bytes w) (bytes w')"
proof -
  let ?C = "getSize (mDesc q)"
  let ?off = "W mod ?C"
  let ?contig = "?C - ?off"
  let ?w1 = "w\<lparr>trace := trace w @ [AtomicLoad (mReadPtr q) memory_order_acquire,
                                AtomicLoad (mWritePtr q) memory_order_relaxed]\<rparr>"
  note ro = ring_offset(1) [OF C, of W] ring_offset(2) [OF C, of W] ring_offset(3) [OF C, of W]
    ring_offset(4) [OF C] ring_offset(5) [OF C]
  have off_nat: "of_nat (unat W mod unat ?C) = ?off"
  proof -
    have "(of_nat (unat ?off) :: 64 word) = ?off" by simp
    then show ?thesis by (simp only: ro(1))
  qed
  have ring_off: "\<And>i. i < unat ?C - unat W mod unat ?C \<Longrightarrow> bytes w (mRing q + ?off + of_nat i) \<noteq> None"
  proof -
    fix i assume "i < unat ?C - unat W mod unat ?C"
    then have "unat W mod unat ?C + i < unat ?C" by simp
    with ring have "bytes w (mRing q + of_nat (unat W mod unat ?C + i)) \<noteq> None" by blast
    then show "bytes w (mRing q + ?off + of_nat i) \<noteq> None"
      by (simp add: off_nat add.assoc)
  qed
  show ?thesis
  proof (cases "?contig < n")
    case True
    then have lt: "unat ?C - unat W mod unat ?C < unat n"
      by (simp add: word_less_nat_alt ro(3))
    have le: "?contig \<le> n" using True by simp
    have u2: "unat (n - ?contig) = unat n - (unat ?C - unat W mod unat ?C)"
      using le by (simp add: unat_sub ro(3))
    let ?B1 = "take (unat ?contig) data"
    let ?h1 = "overlay (mRing q + ?off) ?B1 (bytes w)"
    let ?w2 = "?w1\<lparr>bytes := ?h1\<rparr>"
    let ?B2 = "take (unat (n - ?contig)) (drop (unat ?contig) data)"
    let ?h2 = "overlay (mRing q) ?B2 ?h1"
    let ?w3 = "?w2\<lparr>bytes := ?h2\<rparr>"
    have bw: "beginWrite q n w =
        Inr (\<lparr>first = \<lparr>address = mRing q + ?off, length_r = ?contig\<rparr>,
              second = \<lparr>address = mRing q, length_r = n - ?contig\<rparr>\<rparr>, ?w1)"
      using True by (simp add: beginWrite_eq [OF W R C])
    have m1: "memcpy_in (mRing q + ?off) data 0 ?contig ?w1 = Inr ((), ?w2)"
    proof -
      have "0 + unat ?contig \<le> length data" using lt len by (simp add: ro(3))
      moreover have "\<forall>i<unat ?contig. bytes ?w1 (mRing q + ?off + of_nat i) \<noteq> None"
        using ring_off by (simp add: ro(3))
      ultimately show ?thesis using memcpy_in_ok [of _ _ data] by simp
    qed
    have m2: "memcpy_in (mRing q) data (unat ?contig) (n - ?contig) ?w2 = Inr ((), ?w3)"
    proof -
      have "unat ?contig + unat (n - ?contig) \<le> length data"
        using lt len by (simp add: ro(3) u2)
      moreover have "\<forall>i<unat (n - ?contig). bytes ?w2 (mRing q + of_nat i) \<noteq> None"
      proof (intro allI impI)
        fix i assume "i < unat (n - ?contig)"
        with u2 n have "i < unat ?C" by simp
        with ring have "bytes w (mRing q + of_nat i) \<noteq> None" by blast
        then show "bytes ?w2 (mRing q + of_nat i) \<noteq> None" by (simp add: overlay_mapped)
      qed
      ultimately show ?thesis using memcpy_in_ok [of _ _ data] by simp
    qed
    have res: "?contig + (n - ?contig) = n" by simp
    have cw: "commitWrite q n ?w3 =
       Inr ((), ?w3\<lparr>counters := (counters ?w3)(mWritePtr q \<mapsto> W + n),
                  trace := trace ?w3 @ [AtomicLoad (mWritePtr q) memory_order_relaxed,
                                      AtomicStore (mWritePtr q) (W + n) memory_order_release]\<rparr>)"
      by (rule commitWrite_eq) (simp add: W)
    have run: "writeBytes q data n w =
       Inr (n, ?w3\<lparr>counters := (counters ?w3)(mWritePtr q \<mapsto> W + n),
                  trace := trace ?w3 @ [AtomicLoad (mWritePtr q) memory_order_relaxed,
                                      AtomicStore (mWritePtr q) (W + n) memory_order_release]\<rparr>)"
      unfolding writeBytes_def
      by (simp add: andThen_def bw m1 m2 res commitWrite_eq [where W = W] W Let_def ret_def)
    have cp: "copied (mRing q) (unat ?C) (unat W mod unat ?C) (unat n) data (bytes w) ?h2"
      using copied_wrap [of "unat W mod unat ?C" "unat ?C" "unat n" data "mRing q" "bytes w"]
        ro lt n len
      by (simp add: off_nat u2 ro(3))
    show ?thesis
      by (rule exI, intro conjI, rule run) (simp_all add: cp)
  next
    case False
    then have ge: "unat n \<le> unat ?C - unat W mod unat ?C"
      by (simp add: word_less_nat_alt ro(3))
    let ?B1 = "take (unat n) data"
    let ?h1 = "overlay (mRing q + ?off) ?B1 (bytes w)"
    let ?w2 = "?w1\<lparr>bytes := ?h1\<rparr>"
    have bw: "beginWrite q n w =
        Inr (\<lparr>first = \<lparr>address = mRing q + ?off, length_r = n\<rparr>,
              second = \<lparr>address = 0, length_r = 0\<rparr>\<rparr>, ?w1)"
      using False by (simp add: beginWrite_eq [OF W R C])
    have m1: "memcpy_in (mRing q + ?off) data 0 n ?w1 = Inr ((), ?w2)"
    proof -
      have "0 + unat n \<le> length data" using len by simp
      moreover have "\<forall>i<unat n. bytes ?w1 (mRing q + ?off + of_nat i) \<noteq> None"
        using ring_off ge by simp
      ultimately show ?thesis using memcpy_in_ok [of _ _ data] by simp
    qed
    have m2: "memcpy_in 0 data (unat n) 0 ?w2 = Inr ((), ?w2)"
      using len by (simp add: memcpy_in_zero)
    have cw: "commitWrite q n ?w2 =
       Inr ((), ?w2\<lparr>counters := (counters ?w2)(mWritePtr q \<mapsto> W + n),
                  trace := trace ?w2 @ [AtomicLoad (mWritePtr q) memory_order_relaxed,
                                      AtomicStore (mWritePtr q) (W + n) memory_order_release]\<rparr>)"
      by (rule commitWrite_eq) (simp add: W)
    have run: "writeBytes q data n w =
       Inr (n, ?w2\<lparr>counters := (counters ?w2)(mWritePtr q \<mapsto> W + n),
                  trace := trace ?w2 @ [AtomicLoad (mWritePtr q) memory_order_relaxed,
                                      AtomicStore (mWritePtr q) (W + n) memory_order_release]\<rparr>)"
      unfolding writeBytes_def
      by (simp add: andThen_def bw m1 m2 commitWrite_eq [where W = W] W Let_def ret_def)
    have fit: "unat W mod unat ?C + unat n \<le> unat ?C"
      by (rule fits_before_end [OF ge]) (simp only: ro(1) [symmetric] ro(2))
    have cp: "copied (mRing q) (unat ?C) (unat W mod unat ?C) (unat n) data (bytes w) ?h1"
      using copied_nowrap [OF fit ro(4) len, of "mRing q" "bytes w"]
      by (simp add: off_nat)
    show ?thesis
      by (rule exI, intro conjI, rule run) (simp_all add: cp)
  qed
qed

lemma wrapped_index:
  assumes "off < c" and "c - off \<le> i" and "i < n" and "n \<le> (c :: nat)"
  shows "(off + i) mod c = i - (c - off)"
proof -
  have e: "off + i = (i - (c - off)) + c" using assms by simp
  have k: "i - (c - off) < c" using assms by simp
  have "(off + i) mod c = ((i - (c - off)) + c) mod c" by (simp only: e)
  also have "\<dots> = (i - (c - off)) mod c" by (rule mod_add_self2)
  also have "\<dots> = i - (c - off)" using k by (rule mod_less)
  finally show ?thesis .
qed

lemma readBytes_effect:
  assumes W: "counters w (mWritePtr q) = Some W" and R: "counters w (mReadPtr q) = Some R"
    and C: "getSize (mDesc q) \<noteq> 0"
    and ring: "\<forall>i<unat (getSize (mDesc q)). bytes w (mRing q + of_nat i) \<noteq> None"
    and n: "unat n \<le> unat (getSize (mDesc q))"
  shows "\<exists>w' bs. readBytes q n w = Inr ((bs, n), w')
            \<and> counters w' = (counters w)(mReadPtr q \<mapsto> R + n)
            \<and> bytes w' = bytes w
            \<and> length bs = unat n
            \<and> (\<forall>i<unat n. bytes w (mRing q + of_nat ((unat R mod unat (getSize (mDesc q)) + i)
                                  mod unat (getSize (mDesc q)))) = Some (bs ! i))"
proof -
  let ?C = "getSize (mDesc q)"
  let ?off = "R mod ?C"
  let ?contig = "?C - ?off"
  let ?w1 = "w\<lparr>trace := trace w @ [AtomicLoad (mWritePtr q) memory_order_acquire,
                                AtomicLoad (mReadPtr q) memory_order_relaxed]\<rparr>"
  let ?f1 = "\<lambda>i. the (bytes w (mRing q + ?off + of_nat i))"
  let ?f2 = "\<lambda>i. the (bytes w (mRing q + of_nat i))"
  note ro = ring_offset(1) [OF C, of R] ring_offset(2) [OF C, of R] ring_offset(3) [OF C, of R]
    ring_offset(4) [OF C] ring_offset(5) [OF C]
  have off_nat: "of_nat (unat R mod unat ?C) = ?off"
  proof -
    have "(of_nat (unat ?off) :: 64 word) = ?off" by simp
    then show ?thesis by (simp only: ro(1))
  qed
  have ring_off: "\<And>i. i < unat ?C - unat R mod unat ?C \<Longrightarrow> bytes w (mRing q + ?off + of_nat i) \<noteq> None"
  proof -
    fix i assume "i < unat ?C - unat R mod unat ?C"
    then have "unat R mod unat ?C + i < unat ?C" by simp
    with ring have "bytes w (mRing q + of_nat (unat R mod unat ?C + i)) \<noteq> None" by blast
    then show "bytes w (mRing q + ?off + of_nat i) \<noteq> None"
      by (simp add: off_nat add.assoc)
  qed
  have some1: "\<And>i. i < unat ?C - unat R mod unat ?C \<Longrightarrow>
      bytes w (mRing q + of_nat (unat R mod unat ?C + i)) = Some (?f1 i)"
  proof -
    fix i assume "i < unat ?C - unat R mod unat ?C"
    then have "bytes w (mRing q + ?off + of_nat i) \<noteq> None" by (rule ring_off)
    then show "bytes w (mRing q + of_nat (unat R mod unat ?C + i)) = Some (?f1 i)"
      by (auto simp: off_nat add.assoc)
  qed
  have some2: "\<And>j. j < unat ?C \<Longrightarrow> bytes w (mRing q + of_nat j) = Some (?f2 j)"
    using ring by auto
  show ?thesis
  proof (cases "?contig < n")
    case True
    then have lt: "unat ?C - unat R mod unat ?C < unat n"
      by (simp add: word_less_nat_alt ro(3))
    have le: "?contig \<le> n" using True by simp
    have u2: "unat (n - ?contig) = unat n - (unat ?C - unat R mod unat ?C)"
      using le by (simp add: unat_sub ro(3))
    let ?bs1 = "map ?f1 [0..<unat ?contig]"
    let ?bs2 = "map ?f2 [0..<unat (n - ?contig)]"
    have br: "beginRead q n w =
        Inr (\<lparr>first = \<lparr>address = mRing q + ?off, length_r = ?contig\<rparr>,
              second = \<lparr>address = mRing q, length_r = n - ?contig\<rparr>\<rparr>, ?w1)"
      using True by (simp add: beginRead_eq [OF W R C])
    have m1: "memcpy_out (mRing q + ?off) ?contig ?w1 = Inr (?bs1, ?w1)"
    proof -
      have "\<forall>i<unat ?contig. bytes ?w1 (mRing q + ?off + of_nat i) \<noteq> None"
        using ring_off by (simp add: ro(3))
      then show ?thesis using memcpy_out_ok [of ?contig ?w1 "mRing q + ?off"] by simp
    qed
    have m2: "memcpy_out (mRing q) (n - ?contig) ?w1 = Inr (?bs2, ?w1)"
    proof -
      have "\<forall>i<unat (n - ?contig). bytes ?w1 (mRing q + of_nat i) \<noteq> None"
      proof (intro allI impI)
        fix i assume "i < unat (n - ?contig)"
        with u2 n have "i < unat ?C" by simp
        with ring show "bytes ?w1 (mRing q + of_nat i) \<noteq> None" by simp
      qed
      then show ?thesis using memcpy_out_ok [of "n - ?contig" ?w1 "mRing q"] by simp
    qed
    have res: "?contig + (n - ?contig) = n" by simp
    have run: "readBytes q n w =
       Inr ((?bs1 @ ?bs2, n), ?w1\<lparr>counters := (counters w)(mReadPtr q \<mapsto> R + n),
                  trace := trace ?w1 @ [AtomicLoad (mReadPtr q) memory_order_relaxed,
                                      AtomicStore (mReadPtr q) (R + n) memory_order_release]\<rparr>)"
      unfolding readBytes_def
      by (simp add: andThen_def br m1 m2 res commitRead_eq [where R = R] R Let_def ret_def)
    have l: "length (?bs1 @ ?bs2) = unat n" using lt by (simp add: ro(3) u2)
    have pt: "\<forall>i<unat n. bytes w (mRing q + of_nat ((unat R mod unat ?C + i) mod unat ?C))
                 = Some ((?bs1 @ ?bs2) ! i)"
    proof (intro allI impI)
      fix i assume i: "i < unat n"
      show "bytes w (mRing q + of_nat ((unat R mod unat ?C + i) mod unat ?C)) = Some ((?bs1 @ ?bs2) ! i)"
      proof (cases "i < unat ?C - unat R mod unat ?C")
        case True
        then have "(unat R mod unat ?C + i) mod unat ?C = unat R mod unat ?C + i" by simp
        moreover have "(?bs1 @ ?bs2) ! i = ?f1 i" using True by (simp add: nth_append ro(3))
        ultimately show ?thesis using some1 [OF True] by simp
      next
        case False
        then have ge: "unat ?C - unat R mod unat ?C \<le> i" by simp
        have off_lt: "unat R mod unat ?C < unat ?C" by (simp only: ro(1) [symmetric] ro(2))
        have m: "(unat R mod unat ?C + i) mod unat ?C = i - (unat ?C - unat R mod unat ?C)"
          by (rule wrapped_index [OF off_lt ge i n])
        have "i - (unat ?C - unat R mod unat ?C) < unat n - (unat ?C - unat R mod unat ?C)"
          using i ge by (rule diff_less_mono)
        then have a: "(?bs1 @ ?bs2) ! i = ?f2 (i - (unat ?C - unat R mod unat ?C))"
          using False by (simp add: nth_append ro(3) u2)
        have b: "i - (unat ?C - unat R mod unat ?C) < unat ?C"
        proof (rule less_imp_diff_less)
          show "i < unat ?C" using i n by simp
        qed
        have c: "bytes w (mRing q + of_nat (i - (unat ?C - unat R mod unat ?C)))
                 = Some (?f2 (i - (unat ?C - unat R mod unat ?C)))"
          by (rule some2 [OF b])
        show ?thesis unfolding m a by (rule c)
      qed
    qed
    show ?thesis
      by (rule exI, rule exI, intro conjI, rule run, simp, simp, rule l, rule pt)
  next
    case False
    then have ge: "unat n \<le> unat ?C - unat R mod unat ?C"
      by (simp add: word_less_nat_alt ro(3))
    let ?bs1 = "map ?f1 [0..<unat n]"
    have br: "beginRead q n w =
        Inr (\<lparr>first = \<lparr>address = mRing q + ?off, length_r = n\<rparr>,
              second = \<lparr>address = 0, length_r = 0\<rparr>\<rparr>, ?w1)"
      using False by (simp add: beginRead_eq [OF W R C])
    have m1: "memcpy_out (mRing q + ?off) n ?w1 = Inr (?bs1, ?w1)"
    proof -
      have "\<forall>i<unat n. bytes ?w1 (mRing q + ?off + of_nat i) \<noteq> None"
        using ring_off ge by simp
      then show ?thesis using memcpy_out_ok [of n ?w1 "mRing q + ?off"] by simp
    qed
    have m2: "memcpy_out 0 0 ?w1 = Inr ([], ?w1)"
      by (simp add: memcpy_out_def)
    have run: "readBytes q n w =
       Inr ((?bs1, n), ?w1\<lparr>counters := (counters w)(mReadPtr q \<mapsto> R + n),
                  trace := trace ?w1 @ [AtomicLoad (mReadPtr q) memory_order_relaxed,
                                      AtomicStore (mReadPtr q) (R + n) memory_order_release]\<rparr>)"
      unfolding readBytes_def
      by (simp add: andThen_def br m1 m2 commitRead_eq [where R = R] R Let_def ret_def)
    have pt: "\<forall>i<unat n. bytes w (mRing q + of_nat ((unat R mod unat ?C + i) mod unat ?C))
                 = Some (?bs1 ! i)"
    proof (intro allI impI)
      fix i assume i: "i < unat n"
      with ge have lt: "i < unat ?C - unat R mod unat ?C" by simp
      then have "(unat R mod unat ?C + i) mod unat ?C = unat R mod unat ?C + i" by simp
      moreover have "?bs1 ! i = ?f1 i" using i by simp
      ultimately show "bytes w (mRing q + of_nat ((unat R mod unat ?C + i) mod unat ?C)) = Some (?bs1 ! i)"
        using some1 [OF lt] by simp
    qed
    show ?thesis
      by (rule exI, rule exI, intro conjI, rule run, simp, simp, simp, rule pt)
  qed
qed

lemma unat_product:
  fixes a b :: "64 word"
  assumes "unat a * unat b < 2 ^ 64"
  shows "unat (a * b) = unat a * unat b"
  using assms unat_mult_lem [of a b] by simp

lemma avail_bound:
  fixes C occ n :: "64 word"
  assumes "occ \<le> C" and "\<not> C - occ < n"
  shows "unat n \<le> unat C"
proof -
  have "unat (C - occ) = unat C - unat occ" using assms(1) by (rule unat_sub)
  moreover have "unat n \<le> unat (C - occ)" using assms(2) by (simp add: word_less_nat_alt)
  ultimately show ?thesis by simp
qed

lemma write_n_refused:
  assumes W: "counters w (mWritePtr q) = Some W" and R: "counters w (mReadPtr q) = Some R"
    and "getSize (mDesc q) - (W - R) < sizeofT * count"
  shows "write_n sizeofT q data count w =
           Inr (False, w\<lparr>trace := trace w @ [AtomicLoad (mWritePtr q) memory_order_relaxed,
                                                 AtomicLoad (mReadPtr q) memory_order_relaxed]\<rparr>)"
  using assms(3) by (simp add: write_n_def andThen_def availableToWrite_eq [OF W R] ret_def)

lemma read_n_refused:
  assumes W: "counters w (mWritePtr q) = Some W" and R: "counters w (mReadPtr q) = Some R"
    and "W - R < sizeofT * count"
  shows "read_n sizeofT q count w =
           Inr ((False, []), w\<lparr>trace := trace w @ [AtomicLoad (mWritePtr q) memory_order_relaxed,
                                                 AtomicLoad (mReadPtr q) memory_order_relaxed]\<rparr>)"
  using assms(3) by (simp add: read_n_def andThen_def availableToRead_eq [OF W R] ret_def)

lemma write_n_accepted:
  assumes v: "valid_endpoint q w W R"
    and occ: "W - R \<le> getSize (mDesc q)"
    and acc: "\<not> getSize (mDesc q) - (W - R) < sizeofT * count"
    and len: "unat (sizeofT * count) \<le> length data"
  shows "\<exists>w'. write_n sizeofT q data count w = Inr (True, w')
            \<and> counters w' = (counters w)(mWritePtr q \<mapsto> W + sizeofT * count)
            \<and> copied (mRing q) (unat (getSize (mDesc q))) (unat W mod unat (getSize (mDesc q)))
                 (unat (sizeofT * count)) data (bytes w) (bytes w')"
proof -
  let ?w1 = "w\<lparr>trace := trace w @ [AtomicLoad (mWritePtr q) memory_order_relaxed,
                                      AtomicLoad (mReadPtr q) memory_order_relaxed]\<rparr>"
  from v have W: "counters w (mWritePtr q) = Some W" and R: "counters w (mReadPtr q) = Some R"
    and C: "getSize (mDesc q) \<noteq> 0"
    and ring: "\<forall>i<unat (getSize (mDesc q)). bytes w (mRing q + of_nat i) \<noteq> None"
    by (simp_all add: valid_endpoint_def)
  have n: "unat (sizeofT * count) \<le> unat (getSize (mDesc q))"
    by (rule avail_bound [OF occ acc])
  have "\<exists>w'. writeBytes q data (sizeofT * count) ?w1 = Inr (sizeofT * count, w')
            \<and> counters w' = (counters ?w1)(mWritePtr q \<mapsto> W + sizeofT * count)
            \<and> copied (mRing q) (unat (getSize (mDesc q))) (unat W mod unat (getSize (mDesc q)))
                 (unat (sizeofT * count)) data (bytes ?w1) (bytes w')"
    by (rule writeBytes_effect [where R = R]) (simp_all add: W R C ring n len)
  then obtain w' where wb: "writeBytes q data (sizeofT * count) ?w1 = Inr (sizeofT * count, w')"
    and c': "counters w' = (counters w)(mWritePtr q \<mapsto> W + sizeofT * count)"
    and b': "copied (mRing q) (unat (getSize (mDesc q))) (unat W mod unat (getSize (mDesc q)))
                 (unat (sizeofT * count)) data (bytes w) (bytes w')"
    by auto
  have "write_n sizeofT q data count w = Inr (True, w')"
    using acc by (simp add: write_n_def andThen_def availableToWrite_eq [OF W R] wb ret_def)
  with c' b' show ?thesis by blast
qed

lemma read_n_accepted:
  assumes v: "valid_endpoint q w W R"
    and occ: "W - R \<le> getSize (mDesc q)"
    and acc: "\<not> W - R < sizeofT * count"
  shows "\<exists>w' bs. read_n sizeofT q count w = Inr ((True, bs), w')
            \<and> counters w' = (counters w)(mReadPtr q \<mapsto> R + sizeofT * count)
            \<and> bytes w' = bytes w
            \<and> length bs = unat (sizeofT * count)
            \<and> (\<forall>i<unat (sizeofT * count).
                  bytes w (mRing q + of_nat ((unat R mod unat (getSize (mDesc q)) + i)
                                  mod unat (getSize (mDesc q)))) = Some (bs ! i))"
proof -
  let ?w1 = "w\<lparr>trace := trace w @ [AtomicLoad (mWritePtr q) memory_order_relaxed,
                                      AtomicLoad (mReadPtr q) memory_order_relaxed]\<rparr>"
  from v have W: "counters w (mWritePtr q) = Some W" and R: "counters w (mReadPtr q) = Some R"
    and C: "getSize (mDesc q) \<noteq> 0"
    and ring: "\<forall>i<unat (getSize (mDesc q)). bytes w (mRing q + of_nat i) \<noteq> None"
    by (simp_all add: valid_endpoint_def)
  have "sizeofT * count \<le> W - R" using acc by simp
  then have "sizeofT * count \<le> getSize (mDesc q)" using occ by (rule order_trans)
  then have n: "unat (sizeofT * count) \<le> unat (getSize (mDesc q))"
    by (simp add: word_le_nat_alt)
  have "\<exists>w' bs. readBytes q (sizeofT * count) ?w1 = Inr ((bs, sizeofT * count), w')
            \<and> counters w' = (counters ?w1)(mReadPtr q \<mapsto> R + sizeofT * count)
            \<and> bytes w' = bytes ?w1
            \<and> length bs = unat (sizeofT * count)
            \<and> (\<forall>i<unat (sizeofT * count).
                  bytes ?w1 (mRing q + of_nat ((unat R mod unat (getSize (mDesc q)) + i)
                                  mod unat (getSize (mDesc q)))) = Some (bs ! i))"
    by (rule readBytes_effect [where W = W]) (simp_all add: W R C ring n)
  then obtain w' bs where rb: "readBytes q (sizeofT * count) ?w1 = Inr ((bs, sizeofT * count), w')"
    and c': "counters w' = (counters w)(mReadPtr q \<mapsto> R + sizeofT * count)"
    and b': "bytes w' = bytes w"
    and l: "length bs = unat (sizeofT * count)"
    and pt: "\<forall>i<unat (sizeofT * count).
                  bytes w (mRing q + of_nat ((unat R mod unat (getSize (mDesc q)) + i)
                                  mod unat (getSize (mDesc q)))) = Some (bs ! i)"
    by auto
  have "read_n sizeofT q count w = Inr ((True, bs), w')"
    using acc by (simp add: read_n_def andThen_def availableToRead_eq [OF W R] rb ret_def)
  with c' b' l pt show ?thesis by blast
qed

lemma ex_valid: "length ring = 8 \<Longrightarrow> valid_endpoint ex_queue (ex_world W R ring) W R"
  by (simp add: valid_endpoint_def ex_queue_def ex_world_def ex_desc_def isValid_def getSize_def
      overlay_at)

lemma less_4_cases: "i < (4 :: nat) \<longleftrightarrow> i = 0 \<or> i = 1 \<or> i = 2 \<or> i = 3"
  by arith

lemma copied_mapped:
  assumes "copied ring c off n data h h'" and "h x \<noteq> None"
  shows "h' x \<noteq> None"
proof (cases "\<forall>i<n. x \<noteq> ring + of_nat ((off + i) mod c)")
  case True
  with assms(1) have "h' x = h x" by (simp add: copied_def)
  with assms(2) show ?thesis by simp
next
  case False
  then obtain i where "i < n" and "x = ring + of_nat ((off + i) mod c)" by blast
  with assms(1) have "h' x = Some (data ! i)" by (simp add: copied_def)
  then show ?thesis by simp
qed

lemma valid_endpoint_after_write:
  assumes v: "valid_endpoint q w W R"
    and c: "counters w' = (counters w)(mWritePtr q \<mapsto> W')"
    and b: "copied (mRing q) c off n data (bytes w) (bytes w')"
  shows "valid_endpoint q w' W' R"
  using v c copied_mapped [OF b] by (auto simp: valid_endpoint_def)

lemma valid_endpoint_after_read:
  assumes v: "valid_endpoint q w W R"
    and c: "counters w' = (counters w)(mReadPtr q \<mapsto> R')"
    and b: "bytes w' = bytes w"
  shows "valid_endpoint q w' W R'"
  using v c b by (auto simp: valid_endpoint_def)

lemma valid_endpoint_trace [simp]:
  "valid_endpoint q (w\<lparr>trace := t\<rparr>) W R = valid_endpoint q w W R"
  by (simp add: valid_endpoint_def)

lemma occupancy_after_write:
  fixes W R C n :: "64 word"
  assumes occ: "W - R \<le> C" and acc: "\<not> C - (W - R) < n"
  shows "W + n - R \<le> C"
proof -
  have s: "unat (C - (W - R)) = unat C - unat (W - R)" using occ by (rule unat_sub)
  have "unat n \<le> unat (C - (W - R))" using acc by (simp add: word_less_nat_alt)
  with s have le: "unat (W - R) + unat n \<le> unat C" using occ by (simp add: word_le_nat_alt)
  have "unat C < 2 ^ 64" using unsigned_less [of C] by simp
  with le have "unat (W - R) + unat n < 2 ^ LENGTH(64)" by simp
  then have "unat ((W - R) + n) = unat (W - R) + unat n" by (simp only: unat_add_lem)
  with le have main: "(W - R) + n \<le> C" by (simp add: word_le_nat_alt)
  have eq: "W + n - R = (W - R) + n" by simp
  show ?thesis unfolding eq by (rule main)
qed

lemma occupancy_after_read:
  fixes W R C n :: "64 word"
  assumes occ: "W - R \<le> C" and acc: "\<not> W - R < n"
  shows "W - (R + n) \<le> C"
proof -
  have le: "n \<le> W - R" using acc by simp
  have "unat ((W - R) - n) = unat (W - R) - unat n" using le by (rule unat_sub)
  then have "unat ((W - R) - n) \<le> unat (W - R)" by simp
  then have "(W - R) - n \<le> W - R" by (simp add: word_le_nat_alt)
  then have main: "(W - R) - n \<le> C" using occ by (rule order_trans)
  have eq: "W - (R + n) = (W - R) - n" by simp
  show ?thesis unfolding eq by (rule main)
qed

lemma no_wrap_advance:
  fixes p n :: "64 word"
  assumes "unat p + unat n < 2 ^ 64"
  shows "p \<le> p + n"
proof -
  from assms have "unat p + unat n < 2 ^ LENGTH(64)" by simp
  then have "unat (p + n) = unat p + unat n" by (simp only: unat_add_lem)
  then show ?thesis by (simp add: word_le_nat_alt)
qed

lemma min_run:
  fixes n c :: "64 word"
  shows "min n c = (if c < n then c else n)"
  by (auto simp: min_def)

lemma split_one_more:
  fixes n c :: "64 word"
  assumes "unat n = Suc (unat c)"
  shows "c < n" and "n - c = 1"
proof -
  show lt: "c < n" using assms by (simp add: word_less_nat_alt)
  then have "c \<le> n" by simp
  then have "unat (n - c) = unat n - unat c" by (rule unat_sub)
  with assms have "unat (n - c) = 1" by simp
  then show "n - c = 1" by (metis unat_1 word_unat_eq_iff)
qed

subsection \<open>Construction and mapping\<close>

lemma ctor_malformed:
  assumes "\<not> isHandleValid Desc \<or> countGrantors Desc < kMinGrantorCount \<or> getQuantum Desc \<noteq> sizeofT"
  shows "MessageQueue_ctor pf sizeofT raw Desc w = Inr (raw\<lparr>mDesc := Desc\<rparr>, w)"
  using assms by (auto simp: MessageQueue_ctor_def Let_def ret_def)

lemma availableToRead_fault:
  assumes "counters w (mWritePtr q) = None"
  shows "availableToRead q w = Inl (SegFault (mWritePtr q))"
  using assms by (simp add: availableToRead_def andThen_def atomic_load_def)

lemma write_n_fault:
  assumes "counters w (mWritePtr q) = None"
  shows "write_n sizeofT q data count w = Inl (SegFault (mWritePtr q))"
  using assms
  by (simp add: write_n_def availableToWrite_def andThen_def availableToRead_fault)

text \<open>
  The constructor does not assign the three pointers on this path: over storage that held
  other values before, \<open>isValid\<close> answers true for a malformed descriptor.
\<close>

lemma malformed_descriptor_stale_storage:
  "map_sum id (isValid \<circ> fst)
     (MessageQueue_ctor ex_platform 4 stale_storage (ex_desc\<lparr>mQuantum := 8\<rparr>) (ex_world 0 0 []))
     = Inr True"
  by (simp add: MessageQueue_ctor_def isHandleValid_def countGrantors_def kMinGrantorCount_def
      getQuantum_def isValid_def ret_def stale_storage_def ex_desc_def Let_def)

lemma ex_construction:
  "MessageQueue_ctor ex_platform 1 stale_storage ex_desc (ex_world 77 99 [0, 0, 0, 0, 0, 0, 0, 0]) =
     Inr (ex_queue, ex_constructed)"
  by (simp add: MessageQueue_ctor_def mapGrantorDescr_def getNativeHandle_def getGrantors_def
      vector_at_def array_at_def mmap_def CHECK_def atomic_store_def MAP_FAILED_def
      isHandleValid_def countGrantors_def kMinGrantorCount_def getQuantum_def
      READPTRPOS_def WRITEPTRPOS_def DATAPTRPOS_def ex_constructed_def
      andThen_def ret_def raise_def stale_storage_def ex_queue_def ex_platform_def ex_desc_def ex_world_def Let_def)

lemma atomic_stores_simps [simp]:
  "atomic_stores [] = []"
  "atomic_stores (t @ u) = atomic_stores t @ atomic_stores u"
  "atomic_stores (AtomicStore p v ord # t) = AtomicStore p v ord # atomic_stores t"
  "atomic_stores (Mmap a l pr fl fd off # t) = atomic_stores t"
  "atomic_stores (Munmap a l # t) = atomic_stores t"
  "atomic_stores (AtomicLoad p ord # t) = atomic_stores t"
  by (simp_all add: atomic_stores_def)

lemma mapGrantorDescr_stores:
  assumes "mapGrantorDescr pf q idx w = Inr (p, w1)"
  shows "counters w1 = counters w \<and> bytes w1 = bytes w
       \<and> atomic_stores (trace w1) = atomic_stores (trace w)"
  using assms
  by (auto simp: mapGrantorDescr_def getNativeHandle_def vector_at_def array_at_def mmap_def
      andThen_def ret_def raise_def Let_def split: option.splits if_splits)

lemma mapGrantorDescr_descriptor:
  assumes "mHandle (mDesc q') = mHandle (mDesc q)" and "mGrantors (mDesc q') = mGrantors (mDesc q)"
  shows "mapGrantorDescr pf q' idx = mapGrantorDescr pf q idx"
  using assms by (simp add: mapGrantorDescr_def getGrantors_def getNativeHandle_def)

lemma ctor_mapped:
  assumes wf: "isHandleValid Desc" "kMinGrantorCount \<le> countGrantors Desc" "getQuantum Desc = sizeofT"
    and run: "MessageQueue_ctor pf sizeofT raw Desc w = Inr (q, w')"
  shows "mDesc q = Desc \<and> isValid q
       \<and> counters w' (mReadPtr q) = Some 0 \<and> counters w' (mWritePtr q) = Some 0
       \<and> bytes w' = bytes w"
  using run wf
  by (auto simp: MessageQueue_ctor_def Let_def andThen_def CHECK_def ret_def raise_def
      atomic_store_def isValid_def not_less
      split: sum.splits option.splits if_splits dest!: mapGrantorDescr_stores)

lemma ctor_ignores_size:
  "MessageQueue_ctor pf sizeofT raw (Desc\<lparr>mSize := s\<rparr>) w =
     map_sum id (\<lambda>(q, w'). (q\<lparr>mDesc := Desc\<lparr>mSize := s\<rparr>\<rparr>, w'))
       (MessageQueue_ctor pf sizeofT raw Desc w)"
proof -
  have m: "\<And>q. mapGrantorDescr pf (q\<lparr>mDesc := Desc\<lparr>mSize := s\<rparr>\<rparr>) = mapGrantorDescr pf (q\<lparr>mDesc := Desc\<rparr>)"
    by (rule ext, rule mapGrantorDescr_descriptor) simp_all
  have m': "\<And>p1. mapGrantorDescr pf (raw\<lparr>mDesc := Desc\<lparr>mSize := s\<rparr>, mReadPtr := p1\<rparr>)
                 = mapGrantorDescr pf (raw\<lparr>mDesc := Desc, mReadPtr := p1\<rparr>)"
    by (rule ext, rule mapGrantorDescr_descriptor) simp_all
  have m'': "\<And>p1 p2. mapGrantorDescr pf (raw\<lparr>mDesc := Desc\<lparr>mSize := s\<rparr>, mReadPtr := p1, mWritePtr := p2\<rparr>)
                 = mapGrantorDescr pf (raw\<lparr>mDesc := Desc, mReadPtr := p1, mWritePtr := p2\<rparr>)"
    by (rule ext, rule mapGrantorDescr_descriptor) simp_all
  show ?thesis
    by (simp add: MessageQueue_ctor_def Let_def isHandleValid_def countGrantors_def getQuantum_def
        m [of raw, simplified] m' m'' andThen_def CHECK_def ret_def raise_def
        split: sum.splits prod.splits)
qed

lemma begin_on_empty_ring:
  assumes "counters w (mWritePtr q) \<noteq> None" and "counters w (mReadPtr q) \<noteq> None"
    and "getSize (mDesc q) = 0"
  shows "beginWrite q n w = Inl DivisionByZero" and "beginRead q n w = Inl DivisionByZero"
  using assms
  by (auto simp: beginWrite_def beginRead_def andThen_def atomic_load_def umod_def raise_def)

lemma sint_small:
  fixes x :: "32 word"
  assumes "unat x < 2 ^ 31"
  shows "sint x = int (unat x)"
proof -
  have u: "uint x = int (unat x)" by simp
  have "sint x = signed_take_bit (LENGTH(32) - Suc 0) (uint x)" by (rule sint_uint)
  also have "\<dots> = signed_take_bit 31 (int (unat x))" by (simp only: u) simp
  also have "\<dots> = int (unat x)"
  proof (rule signed_take_bit_int_eq_self)
    have "(0 :: int) \<le> int (unat x)" by (rule of_nat_0_le_iff)
    moreover have "- (2 ^ 31) \<le> (0 :: int)" by simp
    ultimately show "- (2 ^ 31) \<le> int (unat x)" by (rule order_trans [rotated])
    from assms have "int (unat x) < int (2 ^ 31)" by (simp only: of_nat_less_iff)
    then show "int (unat x) < 2 ^ 31" by simp
  qed
  finally show ?thesis .
qed

lemma scast_small:
  fixes x :: "32 word"
  assumes "unat x < 2 ^ 31"
  shows "(scast x :: 64 word) = of_nat (unat x)"
proof -
  have "(scast x :: 64 word) = word_of_int (sint x)" by (rule scast_eq)
  also have "\<dots> = word_of_int (int (unat x))" by (simp only: sint_small [OF assms])
  also have "\<dots> = of_nat (unat x)" by simp
  finally show ?thesis .
qed

lemma ucast_nat64:
  fixes x :: "32 word"
  shows "(ucast x :: 64 word) = of_nat (unat x)"
  by simp

lemma unat_page_floor:
  fixes x p :: "32 word"
  shows "unat ((x div p) * p) = (unat x div unat p) * unat p"
  by (metis (no_types, lifting) le_unat_uoi mult.commute
    times_div_less_eq_dividend unat_div word_arith_nat_mult)

lemma page_floor_le:
  fixes x p :: "32 word"
  shows "(x div p) * p \<le> x"
  by (simp add: word_le_nat_alt unat_page_floor)

lemma array_at_small:
  assumes "unat i < length xs" and "unat i < 2 ^ 31"
  shows "array_at xs i = ret (xs ! unat i)"
  using assms by (simp add: array_at_def sint_small)

subsection \<open>Scenario S3 of the specification\<close>

text \<open>
  Capacity 8, one-byte records. After six records were written and four read (\<open>W = 6\<close>,
  \<open>R = 4\<close>), four more are written across the end of the ring and six are read.
\<close>

lemma load_bytes_numeral:
  "load_bytes a (numeral k) h =
     (case h a of
        None \<Rightarrow> Inl (SegFault a)
      | Some b \<Rightarrow> (case load_bytes (a + 1) (pred_numeral k) h of
                    Inl e \<Rightarrow> Inl e | Inr bs \<Rightarrow> Inr (b # bs)))"
  by (simp add: numeral_eq_Suc)

lemma scenario_S3:
  "(let w2 = ex_world 6 4 [1, 2, 3, 4, 5, 6, 0, 0];
        r3 = write_n 1 ex_queue [7, 8, 9, 10] 4 w2;
        r4 = read_n 1 ex_queue 6 (world_after r3)
    in map_sum id fst r3 = Inr True
     \<and> map_sum id fst r4 = Inr (True, [5, 6, 7, 8, 9, 10])
     \<and> counters (world_after r4) (mWritePtr ex_queue) = Some 10
     \<and> counters (world_after r4) (mReadPtr ex_queue) = Some 10)"
  by (simp add: write_n_def read_n_def writeBytes_def readBytes_def availableToWrite_def
      availableToRead_def beginWrite_def beginRead_def commitWrite_def commitRead_def
      memcpy_in_def memcpy_out_def atomic_load_def atomic_store_def umod_def andThen_def ret_def
      ex_queue_def ex_desc_def ex_world_def getSize_def overlay_def Let_def world_after_def
      load_bytes_numeral)

lemmas ring_run_defs = write_n_def read_n_def writeBytes_def readBytes_def availableToWrite_def
      availableToRead_def beginWrite_def beginRead_def commitWrite_def commitRead_def
      memcpy_in_def memcpy_out_def atomic_load_def atomic_store_def umod_def andThen_def ret_def
      raise_def getSize_def Let_def

subsection \<open>The claims\<close>

text \<open>
  C1 (as amended). On a working endpoint (positive capacity, counters and ring mapped)
  whose occupancy is within the capacity, for every \<open>count\<close>, with the byte size taken as
  the \<^verbatim>\<open>size_t\<close> product \<open>sizeofT * count\<close> (modulo \<open>2 ^ 64\<close>, as the source computes it) and a
  caller's array of at least that many bytes: \<open>write_n\<close> returns false and leaves both
  counters and every byte as they were when the free space is less than that size;
  otherwise it returns true, the bytes of \<open>data\<close> stand in the ring from index \<open>W mod C\<close> on
  (modulo \<open>C\<close>), no other byte has changed, and only the write counter has changed, to \<open>W\<close>
  plus the size. \<open>read_n\<close> is the same against the occupancy and \<open>R\<close>, and changes no
  byte.
\<close>

theorem write_n_read_n_flow_control:
  assumes v: "valid_endpoint q w W R"
    and occ: "W - R \<le> getSize (mDesc q)"
    and len: "unat (sizeofT * count) \<le> length data"
  shows "(if getSize (mDesc q) - (W - R) < sizeofT * count
          then write_n sizeofT q data count w =
                 Inr (False, w\<lparr>trace := trace w @ [AtomicLoad (mWritePtr q) memory_order_relaxed,
                                                     AtomicLoad (mReadPtr q) memory_order_relaxed]\<rparr>)
          else \<exists>w'. write_n sizeofT q data count w = Inr (True, w')
                 \<and> counters w' = (counters w)(mWritePtr q \<mapsto> W + sizeofT * count)
                 \<and> (\<forall>i<unat (sizeofT * count).
                       bytes w' (mRing q + of_nat ((unat W mod unat (getSize (mDesc q)) + i)
                                     mod unat (getSize (mDesc q)))) = Some (data ! i))
                 \<and> (\<forall>x. (\<forall>i<unat (sizeofT * count).
                            x \<noteq> mRing q + of_nat ((unat W mod unat (getSize (mDesc q)) + i)
                                     mod unat (getSize (mDesc q))))
                        \<longrightarrow> bytes w' x = bytes w x))
       \<and> (if W - R < sizeofT * count
          then read_n sizeofT q count w =
                 Inr ((False, []), w\<lparr>trace := trace w @ [AtomicLoad (mWritePtr q) memory_order_relaxed,
                                                     AtomicLoad (mReadPtr q) memory_order_relaxed]\<rparr>)
          else \<exists>w' bs. read_n sizeofT q count w = Inr ((True, bs), w')
                 \<and> counters w' = (counters w)(mReadPtr q \<mapsto> R + sizeofT * count)
                 \<and> bytes w' = bytes w
                 \<and> length bs = unat (sizeofT * count)
                 \<and> (\<forall>i<unat (sizeofT * count).
                       bytes w (mRing q + of_nat ((unat R mod unat (getSize (mDesc q)) + i)
                                     mod unat (getSize (mDesc q)))) = Some (bs ! i)))"
proof -
  from v have W: "counters w (mWritePtr q) = Some W" and R: "counters w (mReadPtr q) = Some R"
    by (simp_all add: valid_endpoint_def)
  show ?thesis
  proof (rule conjI)
    show "if getSize (mDesc q) - (W - R) < sizeofT * count
          then write_n sizeofT q data count w =
                 Inr (False, w\<lparr>trace := trace w @ [AtomicLoad (mWritePtr q) memory_order_relaxed,
                                                     AtomicLoad (mReadPtr q) memory_order_relaxed]\<rparr>)
          else \<exists>w'. write_n sizeofT q data count w = Inr (True, w')
                 \<and> counters w' = (counters w)(mWritePtr q \<mapsto> W + sizeofT * count)
                 \<and> (\<forall>i<unat (sizeofT * count).
                       bytes w' (mRing q + of_nat ((unat W mod unat (getSize (mDesc q)) + i)
                                     mod unat (getSize (mDesc q)))) = Some (data ! i))
                 \<and> (\<forall>x. (\<forall>i<unat (sizeofT * count).
                            x \<noteq> mRing q + of_nat ((unat W mod unat (getSize (mDesc q)) + i)
                                     mod unat (getSize (mDesc q))))
                        \<longrightarrow> bytes w' x = bytes w x)"
    proof (cases "getSize (mDesc q) - (W - R) < sizeofT * count")
      case True
      with write_n_refused [OF W R True] show ?thesis by simp
    next
      case False
      from write_n_accepted [OF v occ False len]
      show ?thesis using False unfolding copied_def by simp
    qed
  next
    show "if W - R < sizeofT * count
          then read_n sizeofT q count w =
                 Inr ((False, []), w\<lparr>trace := trace w @ [AtomicLoad (mWritePtr q) memory_order_relaxed,
                                                     AtomicLoad (mReadPtr q) memory_order_relaxed]\<rparr>)
          else \<exists>w' bs. read_n sizeofT q count w = Inr ((True, bs), w')
                 \<and> counters w' = (counters w)(mReadPtr q \<mapsto> R + sizeofT * count)
                 \<and> bytes w' = bytes w
                 \<and> length bs = unat (sizeofT * count)
                 \<and> (\<forall>i<unat (sizeofT * count).
                       bytes w (mRing q + of_nat ((unat R mod unat (getSize (mDesc q)) + i)
                                     mod unat (getSize (mDesc q)))) = Some (bs ! i))"
    proof (cases "W - R < sizeofT * count")
      case True
      with read_n_refused [OF W R True] show ?thesis by simp
    next
      case False
      from read_n_accepted [OF v occ False]
      show ?thesis using False by simp
    qed
  qed
qed

theorem write_n_read_n_flow_control_witness:
  "(\<exists>w'. write_n 1 ex_queue [7, 8, 9, 10] 4 (ex_world 6 4 [1, 2, 3, 4, 5, 6, 0, 0]) = Inr (True, w')
        \<and> counters w' (mWritePtr ex_queue) = Some 10
        \<and> counters w' (mReadPtr ex_queue) = Some 4
        \<and> bytes w' 0x50006 = Some 7 \<and> bytes w' 0x50007 = Some 8
        \<and> bytes w' 0x50000 = Some 9 \<and> bytes w' 0x50001 = Some 10
        \<and> bytes w' 0x50002 = Some 3)
   \<and> read_n 1 ex_queue 4 (ex_world 6 4 [1, 2, 3, 4, 5, 6, 0, 0]) =
        Inr ((False, []),
             ex_world 6 4 [1, 2, 3, 4, 5, 6, 0, 0]
               \<lparr>trace := [AtomicLoad 0x20008 memory_order_relaxed,
                          AtomicLoad 0x10000 memory_order_relaxed]\<rparr>)"
proof -
  let ?w = "ex_world 6 4 [1, 2, 3, 4, 5, 6, 0, 0]"
  have v: "valid_endpoint ex_queue ?w 6 4" by (rule ex_valid) simp
  have occ: "(6 :: uint64_t) - 4 \<le> getSize (mDesc ex_queue)"
    by (simp add: ex_queue_def ex_desc_def getSize_def)
  have len: "unat ((1 :: size_t) * 4) \<le> length [7, 8, 9, 10 :: uint8_t]" by simp
  note t = write_n_read_n_flow_control [OF v occ len]
  have C: "getSize (mDesc ex_queue) = 8" "mRing ex_queue = 0x50000"
    "mWritePtr ex_queue = 0x20008" "mReadPtr ex_queue = 0x10000"
    by (simp_all add: ex_queue_def ex_desc_def getSize_def)
  from t have rd: "read_n 1 ex_queue 4 ?w =
        Inr ((False, []), ?w\<lparr>trace := [AtomicLoad 0x20008 memory_order_relaxed,
                          AtomicLoad 0x10000 memory_order_relaxed]\<rparr>)"
    by (simp add: C ex_world_def)
  from t obtain w' where wr: "write_n 1 ex_queue [7, 8, 9, 10] 4 ?w = Inr (True, w')"
    and c: "counters w' = (counters ?w)(mWritePtr ex_queue \<mapsto> 6 + 1 * 4)"
    and b: "\<forall>i<4. bytes w' (0x50000 + of_nat ((6 + i) mod 8)) = Some ([7, 8, 9, 10] ! i)"
    and f: "\<forall>x. (\<forall>i<4. x \<noteq> 0x50000 + of_nat ((6 + i) mod 8)) \<longrightarrow> bytes w' x = bytes ?w x"
    by (auto simp: C)
  have c1: "counters w' (mWritePtr ex_queue) = Some 10" "counters w' (mReadPtr ex_queue) = Some 4"
    by (simp_all add: c C ex_world_def)
  have b1: "bytes w' 0x50006 = Some 7" "bytes w' 0x50007 = Some 8"
    "bytes w' 0x50000 = Some 9" "bytes w' 0x50001 = Some 10"
    using b [rule_format, of 0] b [rule_format, of 1] b [rule_format, of 2] b [rule_format, of 3]
    by simp_all
  have "\<forall>i<4. (0x50002 :: pointer) \<noteq> 0x50000 + of_nat ((6 + i) mod 8)"
    by (auto simp: less_4_cases)
  with f have "bytes w' 0x50002 = bytes ?w 0x50002" by blast
  then have b2: "bytes w' 0x50002 = Some 3" by (simp add: ex_world_def overlay_def)
  from wr c1 b1 b2 rd show ?thesis by blast
qed

text \<open>
  The claim as it is written, with the byte size as the product of numbers. For records
  of four bytes and a count of \<open>2 ^ 62 + 1\<close> the product exceeds the 8 free bytes, and the
  write is accepted (it copies 4 bytes); the read of as many records from a queue that
  holds 4 bytes is accepted too. And on the valid endpoint of capacity 0 a write of zero
  records, for which the free space suffices, reduces the position modulo 0.
\<close>

theorem write_n_read_n_flow_control_counterexample:
  "map_sum id fst (availableToWrite ex_queue4 (ex_world 0 0 [0, 0, 0, 0, 0, 0, 0, 0])) = Inr 8
   \<and> (8 :: nat) < unat (4 :: size_t) * unat (4611686018427387905 :: size_t)
   \<and> map_sum id fst
        (write_n 4 ex_queue4 [1, 2, 3, 4] 4611686018427387905 (ex_world 0 0 [0, 0, 0, 0, 0, 0, 0, 0]))
       = Inr True
   \<and> map_sum id fst
        (read_n 4 ex_queue4 4611686018427387905 (ex_world 4 0 [1, 2, 3, 4, 0, 0, 0, 0]))
       = Inr (True, [1, 2, 3, 4])
   \<and> isValid ex_queue0
   \<and> map_sum id fst (availableToWrite ex_queue0 ex_constructed) = Inr 0
   \<and> write_n 1 ex_queue0 [] 0 ex_constructed = Inl DivisionByZero"
  by (simp add: ring_run_defs ex_queue4_def ex_queue0_def ex_queue_def ex_desc_def ex_world_def
      ex_constructed_def overlay_def isValid_def load_bytes_numeral)

text \<open>
  C2 (as amended). For every desired length \<open>n\<close> and position \<open>p\<close> (\<open>W\<close> for \<open>beginWrite\<close>,
  \<open>R\<close> for \<open>beginRead\<close>) the first run starts at ring offset \<open>p mod C\<close> and has length
  \<open>min n (C - p mod C)\<close>, the second run has length \<open>n\<close> minus that; the second run is not
  empty exactly when the request wraps, and then it starts at the start of the ring; when
  the request does not wrap the second run is the null region (address 0, length 0). A
  request of exactly \<open>C - p mod C\<close> bytes is one run, one byte more makes two runs, and the
  commit step stores the owning counter plus \<open>n\<close>.
\<close>

theorem transaction_runs:
  assumes W: "counters w (mWritePtr q) = Some W" and R: "counters w (mReadPtr q) = Some R"
    and C: "getSize (mDesc q) \<noteq> 0"
  shows "(let c = getSize (mDesc q) - W mod getSize (mDesc q);
              tx = \<lparr>first = \<lparr>address = mRing q + W mod getSize (mDesc q), length_r = min n c\<rparr>,
                    second = \<lparr>address = (if c < n then mRing q else nullptr), length_r = n - min n c\<rparr>\<rparr>
          in map_sum id fst (beginWrite q n w) = Inr tx
           \<and> (length_r (second tx) \<noteq> 0 \<longleftrightarrow> c < n)
           \<and> (n = c \<longrightarrow> length_r (first tx) = n \<and> second tx = \<lparr>address = nullptr, length_r = 0\<rparr>)
           \<and> (unat n = unat c + 1 \<longrightarrow>
                length_r (first tx) = c \<and> second tx = \<lparr>address = mRing q, length_r = 1\<rparr>))
       \<and> (let c = getSize (mDesc q) - R mod getSize (mDesc q);
              tx = \<lparr>first = \<lparr>address = mRing q + R mod getSize (mDesc q), length_r = min n c\<rparr>,
                    second = \<lparr>address = (if c < n then mRing q else nullptr), length_r = n - min n c\<rparr>\<rparr>
          in map_sum id fst (beginRead q n w) = Inr tx
           \<and> (length_r (second tx) \<noteq> 0 \<longleftrightarrow> c < n)
           \<and> (n = c \<longrightarrow> length_r (first tx) = n \<and> second tx = \<lparr>address = nullptr, length_r = 0\<rparr>)
           \<and> (unat n = unat c + 1 \<longrightarrow>
                length_r (first tx) = c \<and> second tx = \<lparr>address = mRing q, length_r = 1\<rparr>))
       \<and> commitWrite q n w =
           Inr ((), w\<lparr>counters := (counters w)(mWritePtr q \<mapsto> W + n),
                      trace := trace w @ [AtomicLoad (mWritePtr q) memory_order_relaxed,
                                          AtomicStore (mWritePtr q) (W + n) memory_order_release]\<rparr>)
       \<and> commitRead q n w =
           Inr ((), w\<lparr>counters := (counters w)(mReadPtr q \<mapsto> R + n),
                      trace := trace w @ [AtomicLoad (mReadPtr q) memory_order_relaxed,
                                          AtomicStore (mReadPtr q) (R + n) memory_order_release]\<rparr>)"
proof (intro conjI)
  show "let c = getSize (mDesc q) - W mod getSize (mDesc q);
              tx = \<lparr>first = \<lparr>address = mRing q + W mod getSize (mDesc q), length_r = min n c\<rparr>,
                    second = \<lparr>address = (if c < n then mRing q else nullptr), length_r = n - min n c\<rparr>\<rparr>
          in map_sum id fst (beginWrite q n w) = Inr tx
           \<and> (length_r (second tx) \<noteq> 0 \<longleftrightarrow> c < n)
           \<and> (n = c \<longrightarrow> length_r (first tx) = n \<and> second tx = \<lparr>address = nullptr, length_r = 0\<rparr>)
           \<and> (unat n = unat c + 1 \<longrightarrow>
                length_r (first tx) = c \<and> second tx = \<lparr>address = mRing q, length_r = 1\<rparr>)"
    unfolding Let_def
    by (intro conjI impI)
       (auto simp: beginWrite_eq [OF W R C] min_run split_one_more)
next
  show "let c = getSize (mDesc q) - R mod getSize (mDesc q);
              tx = \<lparr>first = \<lparr>address = mRing q + R mod getSize (mDesc q), length_r = min n c\<rparr>,
                    second = \<lparr>address = (if c < n then mRing q else nullptr), length_r = n - min n c\<rparr>\<rparr>
          in map_sum id fst (beginRead q n w) = Inr tx
           \<and> (length_r (second tx) \<noteq> 0 \<longleftrightarrow> c < n)
           \<and> (n = c \<longrightarrow> length_r (first tx) = n \<and> second tx = \<lparr>address = nullptr, length_r = 0\<rparr>)
           \<and> (unat n = unat c + 1 \<longrightarrow>
                length_r (first tx) = c \<and> second tx = \<lparr>address = mRing q, length_r = 1\<rparr>)"
    unfolding Let_def
    by (intro conjI impI)
       (auto simp: beginRead_eq [OF W R C] min_run split_one_more)
next
  show "commitWrite q n w =
           Inr ((), w\<lparr>counters := (counters w)(mWritePtr q \<mapsto> W + n),
                      trace := trace w @ [AtomicLoad (mWritePtr q) memory_order_relaxed,
                                          AtomicStore (mWritePtr q) (W + n) memory_order_release]\<rparr>)"
    by (rule commitWrite_eq [OF W])
next
  show "commitRead q n w =
           Inr ((), w\<lparr>counters := (counters w)(mReadPtr q \<mapsto> R + n),
                      trace := trace w @ [AtomicLoad (mReadPtr q) memory_order_relaxed,
                                          AtomicStore (mReadPtr q) (R + n) memory_order_release]\<rparr>)"
    by (rule commitRead_eq [OF R])
qed

theorem transaction_runs_witness:
  "map_sum id fst (beginWrite ex_queue 3 (ex_world 6 4 [1, 2, 3, 4, 5, 6, 0, 0])) =
     Inr \<lparr>first = \<lparr>address = 0x50006, length_r = 2\<rparr>,
          second = \<lparr>address = 0x50000, length_r = 1\<rparr>\<rparr>
   \<and> map_sum id fst (beginRead ex_queue 3 (ex_world 6 4 [1, 2, 3, 4, 5, 6, 0, 0])) =
     Inr \<lparr>first = \<lparr>address = 0x50004, length_r = 3\<rparr>,
          second = \<lparr>address = 0, length_r = 0\<rparr>\<rparr>
   \<and> map_sum id (\<lambda>r. counters (snd r) 0x20008)
        (commitWrite ex_queue 3 (ex_world 6 4 [1, 2, 3, 4, 5, 6, 0, 0])) = Inr (Some 9)
   \<and> map_sum id (\<lambda>r. counters (snd r) 0x10000)
        (commitRead ex_queue 3 (ex_world 6 4 [1, 2, 3, 4, 5, 6, 0, 0])) = Inr (Some 7)"
proof -
  let ?w = "ex_world 6 4 [1, 2, 3, 4, 5, 6, 0, 0]"
  have W: "counters ?w (mWritePtr ex_queue) = Some 6"
    and R: "counters ?w (mReadPtr ex_queue) = Some 4"
    by (simp_all add: ex_world_def ex_queue_def)
  have C: "getSize (mDesc ex_queue) = 8" "mRing ex_queue = 0x50000"
    "mWritePtr ex_queue = 0x20008" "mReadPtr ex_queue = 0x10000"
    by (simp_all add: ex_queue_def ex_desc_def getSize_def)
  have C0: "getSize (mDesc ex_queue) \<noteq> 0" by (simp add: C)
  from transaction_runs [OF W R C0, of 3] show ?thesis
    by (simp add: C Let_def)
qed

text \<open>
  The claim as it is written, at a request that does not wrap: the second run of the code
  is the null region, not a region at the start of the ring.
\<close>

theorem transaction_runs_counterexample:
  "map_sum id fst (beginWrite ex_queue 3 (ex_world 0 0 [0, 0, 0, 0, 0, 0, 0, 0])) =
     Inr \<lparr>first = \<lparr>address = 0x50000, length_r = 3\<rparr>,
          second = \<lparr>address = 0, length_r = 0\<rparr>\<rparr>
   \<and> spec_transaction (mRing ex_queue) (getSize (mDesc ex_queue)) 0 3 =
     \<lparr>first = \<lparr>address = 0x50000, length_r = 3\<rparr>,
      second = \<lparr>address = 0x50000, length_r = 0\<rparr>\<rparr>
   \<and> map_sum id fst (beginWrite ex_queue 3 (ex_world 0 0 [0, 0, 0, 0, 0, 0, 0, 0])) \<noteq>
     Inr (spec_transaction (mRing ex_queue) (getSize (mDesc ex_queue)) 0 3)"
  by (simp add: beginWrite_def spec_transaction_def atomic_load_def umod_def andThen_def ret_def
      ex_queue_def ex_desc_def ex_world_def getSize_def Let_def)




text \<open>
  C4 (as amended). From a working endpoint with \<open>W - R \<le> C\<close> (64-bit unsigned
  subtraction), \<open>write_n\<close> and \<open>read_n\<close> return, leave the endpoint in working order and
  keep \<open>W - R \<le> C\<close>; each leaves the other side's counter alone and its own counter
  either as it was or advanced by the byte size modulo \<open>2 ^ 64\<close>, so the counter does not
  decrease unless that addition wraps around.
\<close>

theorem occupancy_bounds_preserved:
  assumes v: "valid_endpoint q w W R"
    and occ: "W - R \<le> getSize (mDesc q)"
    and rec: "length data = unat sizeofT * unat count"
    and fits: "unat sizeofT * unat count < 2 ^ 64"
  shows "(\<exists>ok w' W'. write_n sizeofT q data count w = Inr (ok, w')
            \<and> valid_endpoint q w' W' R
            \<and> W' - R \<le> getSize (mDesc q)
            \<and> W' = (if ok then W + of_nat (unat sizeofT * unat count) else W)
            \<and> (unat W + unat sizeofT * unat count < 2 ^ 64 \<longrightarrow> W \<le> W'))
       \<and> (\<exists>ok bs w' R'. read_n sizeofT q count w = Inr ((ok, bs), w')
            \<and> valid_endpoint q w' W R'
            \<and> W - R' \<le> getSize (mDesc q)
            \<and> R' = (if ok then R + of_nat (unat sizeofT * unat count) else R)
            \<and> (unat R + unat sizeofT * unat count < 2 ^ 64 \<longrightarrow> R \<le> R'))"
proof -
  let ?C = "getSize (mDesc q)"
  let ?n = "sizeofT * count"
  from v have W: "counters w (mWritePtr q) = Some W" and R: "counters w (mReadPtr q) = Some R"
    by (simp_all add: valid_endpoint_def)
  have u: "unat ?n = unat sizeofT * unat count" by (rule unat_product [OF fits])
  have o: "(of_nat (unat sizeofT * unat count) :: 64 word) = ?n" by simp
  have adv: "\<And>p. unat p + unat sizeofT * unat count < 2 ^ 64 \<Longrightarrow> p \<le> p + ?n"
    by (rule no_wrap_advance) (simp add: u)
  show ?thesis
  proof (rule conjI)
    show "\<exists>ok w' W'. write_n sizeofT q data count w = Inr (ok, w')
            \<and> valid_endpoint q w' W' R
            \<and> W' - R \<le> ?C
            \<and> W' = (if ok then W + of_nat (unat sizeofT * unat count) else W)
            \<and> (unat W + unat sizeofT * unat count < 2 ^ 64 \<longrightarrow> W \<le> W')"
    proof (cases "?C - (W - R) < ?n")
      case True
      from write_n_refused [OF W R True, of data] v occ show ?thesis by auto
    next
      case False
      have len: "unat ?n \<le> length data" by (simp add: u rec)
      from write_n_accepted [OF v occ False len]
      obtain w' where wr: "write_n sizeofT q data count w = Inr (True, w')"
        and c: "counters w' = (counters w)(mWritePtr q \<mapsto> W + ?n)"
        and b: "copied (mRing q) (unat ?C) (unat W mod unat ?C) (unat ?n) data (bytes w) (bytes w')"
        by blast
      have v': "valid_endpoint q w' (W + ?n) R"
        by (rule valid_endpoint_after_write [OF v c b])
      have occ': "W + ?n - R \<le> ?C" by (rule occupancy_after_write [OF occ False])
      from wr v' occ' adv [of W] show ?thesis unfolding o by auto
    qed
  next
    show "\<exists>ok bs w' R'. read_n sizeofT q count w = Inr ((ok, bs), w')
            \<and> valid_endpoint q w' W R'
            \<and> W - R' \<le> ?C
            \<and> R' = (if ok then R + of_nat (unat sizeofT * unat count) else R)
            \<and> (unat R + unat sizeofT * unat count < 2 ^ 64 \<longrightarrow> R \<le> R')"
    proof (cases "W - R < ?n")
      case True
      from read_n_refused [OF W R True] v occ show ?thesis by auto
    next
      case False
      from read_n_accepted [OF v occ False]
      obtain w' bs where rd: "read_n sizeofT q count w = Inr ((True, bs), w')"
        and c: "counters w' = (counters w)(mReadPtr q \<mapsto> R + ?n)"
        and b: "bytes w' = bytes w"
        by blast
      have v': "valid_endpoint q w' W (R + ?n)"
        by (rule valid_endpoint_after_read [OF v c b])
      have occ': "W - (R + ?n) \<le> ?C" by (rule occupancy_after_read [OF occ False])
      from rd v' occ' adv [of R] show ?thesis unfolding o by auto
    qed
  qed
qed

theorem occupancy_bounds_preserved_witness:
  "(\<exists>w'. write_n 1 ex_queue [7, 8, 9, 10] 4 (ex_world 6 4 [1, 2, 3, 4, 5, 6, 0, 0]) = Inr (True, w')
         \<and> valid_endpoint ex_queue w' 10 4 \<and> (10 :: uint64_t) - 4 \<le> getSize (mDesc ex_queue)
         \<and> (6 :: uint64_t) \<le> 10)
   \<and> (\<exists>w'. read_n 1 ex_queue 4 (ex_world 6 4 [1, 2, 3, 4, 5, 6, 0, 0]) = Inr ((False, []), w')
         \<and> valid_endpoint ex_queue w' 6 4)"
proof -
  let ?w = "ex_world 6 4 [1, 2, 3, 4, 5, 6, 0, 0]"
  have v: "valid_endpoint ex_queue ?w 6 4" by (rule ex_valid) simp
  have C: "getSize (mDesc ex_queue) = 8" by (simp add: ex_queue_def ex_desc_def getSize_def)
  have occ: "(6 :: uint64_t) - 4 \<le> getSize (mDesc ex_queue)" by (simp add: C)
  have rec: "length [7, 8, 9, 10 :: uint8_t] = unat (1 :: size_t) * unat (4 :: size_t)" by simp
  have fits: "unat (1 :: size_t) * unat (4 :: size_t) < 2 ^ 64" by simp
  note t = occupancy_bounds_preserved [OF v occ rec fits]
  have wr: "map_sum id fst (write_n 1 ex_queue [7, 8, 9, 10] 4 ?w) = Inr True"
    using write_n_accepted [OF v occ, of 1 4 "[7, 8, 9, 10]"] by (auto simp: C)
  have rd: "map_sum id fst (read_n 1 ex_queue 4 ?w) = Inr (False, [])"
    using v by (simp add: read_n_refused [where W = 6 and R = 4] valid_endpoint_def)
  from t wr rd show ?thesis by (auto simp: C)
qed

text \<open>The claim as it is written, at a write counter one step below \<open>2 ^ 64\<close>.\<close>

theorem occupancy_bounds_preserved_counterexample:
  "valid_endpoint ex_queue (ex_world (- 1) (- 1) [0, 0, 0, 0, 0, 0, 0, 0]) (- 1) (- 1)
   \<and> (- 1 :: uint64_t) - (- 1) \<le> getSize (mDesc ex_queue)
   \<and> map_sum id fst (write_n 1 ex_queue [5] 1 (ex_world (- 1) (- 1) [0, 0, 0, 0, 0, 0, 0, 0])) = Inr True
   \<and> counters (snd (projr (write_n 1 ex_queue [5] 1 (ex_world (- 1) (- 1) [0, 0, 0, 0, 0, 0, 0, 0]))))
        (mWritePtr ex_queue) = Some 0
   \<and> (0 :: uint64_t) < - 1"
proof -
  have v: "valid_endpoint ex_queue (ex_world (- 1) (- 1) [0, 0, 0, 0, 0, 0, 0, 0]) (- 1) (- 1)"
    by (rule ex_valid) simp
  have e: "map_sum id fst (write_n 1 ex_queue [5] 1 (ex_world (- 1) (- 1) [0, 0, 0, 0, 0, 0, 0, 0])) = Inr True
   \<and> counters (snd (projr (write_n 1 ex_queue [5] 1 (ex_world (- 1) (- 1) [0, 0, 0, 0, 0, 0, 0, 0]))))
        (mWritePtr ex_queue) = Some 0"
    by (simp add: write_n_def writeBytes_def availableToWrite_def
      availableToRead_def beginWrite_def commitWrite_def
      memcpy_in_def atomic_load_def atomic_store_def umod_def andThen_def ret_def
      ex_queue_def ex_desc_def ex_world_def getSize_def overlay_def Let_def)
  have "(0 :: uint64_t) < - 1" by (simp add: word_gt_0)
  moreover have "(- 1 :: uint64_t) - (- 1) \<le> getSize (mDesc ex_queue)" by simp
  ultimately show ?thesis using v e by blast
qed

text \<open>
  C5 (as amended). For every malformed descriptor (handle invalid, fewer than the minimum
  grantors, or quantum different from the record width) the constructor returns without
  any request or store: the world, its record of events included, is as before. On the
  resulting endpoint, when its three pointers are null, \<open>isValid\<close> is false, and
  \<open>availableToRead\<close> and \<open>write_n\<close> check no validity: they load through the null counter
  pointer and fault.
\<close>

theorem malformed_descriptor_endpoint:
  assumes bad: "\<not> isHandleValid Desc \<or> countGrantors Desc < kMinGrantorCount
                \<or> getQuantum Desc \<noteq> sizeofT"
    and unmapped: "counters w nullptr = None"
  shows "\<exists>q. MessageQueue_ctor pf sizeofT raw Desc w = Inr (q, w)
           \<and> mDesc q = Desc
           \<and> (mRing q = nullptr \<and> mReadPtr q = nullptr \<and> mWritePtr q = nullptr \<longrightarrow>
                \<not> isValid q
              \<and> availableToRead q w = Inl (SegFault nullptr)
              \<and> write_n sizeofT q data count w = Inl (SegFault nullptr))"
proof (intro exI conjI impI)
  show "MessageQueue_ctor pf sizeofT raw Desc w = Inr (raw\<lparr>mDesc := Desc\<rparr>, w)"
    by (rule ctor_malformed [OF bad])
next
  show "mDesc (raw\<lparr>mDesc := Desc\<rparr>) = Desc" by simp
next
  assume "mRing (raw\<lparr>mDesc := Desc\<rparr>) = nullptr \<and> mReadPtr (raw\<lparr>mDesc := Desc\<rparr>) = nullptr
          \<and> mWritePtr (raw\<lparr>mDesc := Desc\<rparr>) = nullptr"
  then show "\<not> isValid (raw\<lparr>mDesc := Desc\<rparr>)" by (simp add: isValid_def)
next
  assume n: "mRing (raw\<lparr>mDesc := Desc\<rparr>) = nullptr \<and> mReadPtr (raw\<lparr>mDesc := Desc\<rparr>) = nullptr
          \<and> mWritePtr (raw\<lparr>mDesc := Desc\<rparr>) = nullptr"
  then have "counters w (mWritePtr (raw\<lparr>mDesc := Desc\<rparr>)) = None" using unmapped by simp
  from availableToRead_fault [OF this] n
  show "availableToRead (raw\<lparr>mDesc := Desc\<rparr>) w = Inl (SegFault nullptr)" by simp
next
  assume n: "mRing (raw\<lparr>mDesc := Desc\<rparr>) = nullptr \<and> mReadPtr (raw\<lparr>mDesc := Desc\<rparr>) = nullptr
          \<and> mWritePtr (raw\<lparr>mDesc := Desc\<rparr>) = nullptr"
  then have "counters w (mWritePtr (raw\<lparr>mDesc := Desc\<rparr>)) = None" using unmapped by simp
  from write_n_fault [OF this] n
  show "write_n sizeofT (raw\<lparr>mDesc := Desc\<rparr>) data count w = Inl (SegFault nullptr)" by simp
qed

theorem malformed_descriptor_endpoint_witness:
  "MessageQueue_ctor ex_platform 4 null_storage (ex_desc\<lparr>mQuantum := 8\<rparr>) (ex_world 0 0 []) =
     Inr (null_storage\<lparr>mDesc := ex_desc\<lparr>mQuantum := 8\<rparr>\<rparr>, ex_world 0 0 [])
   \<and> \<not> isValid (null_storage\<lparr>mDesc := ex_desc\<lparr>mQuantum := 8\<rparr>\<rparr>)
   \<and> availableToRead (null_storage\<lparr>mDesc := ex_desc\<lparr>mQuantum := 8\<rparr>\<rparr>) (ex_world 0 0 [])
       = Inl (SegFault 0)
   \<and> write_n 4 (null_storage\<lparr>mDesc := ex_desc\<lparr>mQuantum := 8\<rparr>\<rparr>) [1, 2, 3, 4] 1 (ex_world 0 0 [])
       = Inl (SegFault 0)"
proof -
  have bad: "\<not> isHandleValid (ex_desc\<lparr>mQuantum := 8\<rparr>)
             \<or> countGrantors (ex_desc\<lparr>mQuantum := 8\<rparr>) < kMinGrantorCount
             \<or> getQuantum (ex_desc\<lparr>mQuantum := 8\<rparr>) \<noteq> 4"
    by (simp add: getQuantum_def)
  have unmapped: "counters (ex_world 0 0 []) nullptr = None" by (simp add: ex_world_def)
  from malformed_descriptor_endpoint [OF bad unmapped, of ex_platform null_storage "[1, 2, 3, 4]" 1]
  obtain q where c: "MessageQueue_ctor ex_platform 4 null_storage (ex_desc\<lparr>mQuantum := 8\<rparr>) (ex_world 0 0 []) =
       Inr (q, ex_world 0 0 [])"
    and r: "mRing q = nullptr \<and> mReadPtr q = nullptr \<and> mWritePtr q = nullptr \<longrightarrow>
                \<not> isValid q
              \<and> availableToRead q (ex_world 0 0 []) = Inl (SegFault nullptr)
              \<and> write_n 4 q [1, 2, 3, 4] 1 (ex_world 0 0 []) = Inl (SegFault nullptr)"
    by blast
  have "MessageQueue_ctor ex_platform 4 null_storage (ex_desc\<lparr>mQuantum := 8\<rparr>) (ex_world 0 0 []) =
     Inr (null_storage\<lparr>mDesc := ex_desc\<lparr>mQuantum := 8\<rparr>\<rparr>, ex_world 0 0 [])"
    by (rule ctor_malformed [OF bad])
  with c have q: "q = null_storage\<lparr>mDesc := ex_desc\<lparr>mQuantum := 8\<rparr>\<rparr>" by simp
  have "mRing q = nullptr \<and> mReadPtr q = nullptr \<and> mWritePtr q = nullptr"
    by (simp add: q null_storage_def)
  with r c show ?thesis unfolding q by blast
qed

text \<open>
  The claim as it is written, at a descriptor of quantum 8 for records of 4 bytes and an
  object whose storage was all zero: the endpoint is not valid, and the two operations
  dereference the null counter pointer.
\<close>

theorem malformed_descriptor_endpoint_counterexample:
  "map_sum id fst
     (MessageQueue_ctor ex_platform 4 null_storage (ex_desc\<lparr>mQuantum := 8\<rparr>) (ex_world 0 0 []))
     = Inr (null_storage\<lparr>mDesc := ex_desc\<lparr>mQuantum := 8\<rparr>\<rparr>)
   \<and> isValid (null_storage\<lparr>mDesc := ex_desc\<lparr>mQuantum := 8\<rparr>\<rparr>) = False
   \<and> map_sum id fst
       (availableToRead (null_storage\<lparr>mDesc := ex_desc\<lparr>mQuantum := 8\<rparr>\<rparr>) (ex_world 0 0 []))
       = Inl (SegFault 0)
   \<and> map_sum id fst
       (availableToRead (null_storage\<lparr>mDesc := ex_desc\<lparr>mQuantum := 8\<rparr>\<rparr>) (ex_world 0 0 []))
       \<noteq> Inr 0
   \<and> map_sum id fst
       (write_n 4 (null_storage\<lparr>mDesc := ex_desc\<lparr>mQuantum := 8\<rparr>\<rparr>) [1, 2, 3, 4] 1 (ex_world 0 0 []))
       \<noteq> Inr False"
  by (simp add: MessageQueue_ctor_def isHandleValid_def countGrantors_def kMinGrantorCount_def
      getQuantum_def isValid_def availableToRead_def availableToWrite_def write_n_def
      atomic_load_def andThen_def ret_def null_storage_def ex_desc_def ex_world_def Let_def)

text \<open>
  C6 (as amended). On an endpoint of positive capacity whose two counters can be read (as
  on every valid endpoint of positive capacity), \<open>write_n\<close> and \<open>read_n\<close> of zero records
  return true and leave both counters and every byte as they were.
\<close>

theorem zero_count_is_noop:
  assumes W: "counters w (mWritePtr q) = Some W" and R: "counters w (mReadPtr q) = Some R"
    and C: "getSize (mDesc q) \<noteq> 0"
  shows "(\<exists>w'. write_n sizeofT q data 0 w = Inr (True, w')
             \<and> counters w' = counters w \<and> bytes w' = bytes w)
       \<and> (\<exists>w'. read_n sizeofT q 0 w = Inr ((True, []), w')
             \<and> counters w' = counters w \<and> bytes w' = bytes w)"
proof -
  have keepW: "(counters w)(mWritePtr q \<mapsto> W) = counters w" using W by (rule map_upd_triv)
  have keepR: "(counters w)(mReadPtr q \<mapsto> R) = counters w" using R by (rule map_upd_triv)
  have "write_n sizeofT q data 0 w =
          Inr (True, w\<lparr>counters := (counters w)(mWritePtr q \<mapsto> W),
                        trace := trace w @ [AtomicLoad (mWritePtr q) memory_order_relaxed,
                                            AtomicLoad (mReadPtr q) memory_order_relaxed,
                                            AtomicLoad (mReadPtr q) memory_order_acquire,
                                            AtomicLoad (mWritePtr q) memory_order_relaxed,
                                            AtomicLoad (mWritePtr q) memory_order_relaxed,
                                            AtomicStore (mWritePtr q) W memory_order_release]\<rparr>)"
    by (simp add: write_n_def writeBytes_def andThen_def availableToWrite_eq [OF W R]
        beginWrite_eq [where W = W and R = R] memcpy_in_zero commitWrite_eq [where W = W]
        W R C ret_def Let_def)
  moreover have "read_n sizeofT q 0 w =
          Inr ((True, []), w\<lparr>counters := (counters w)(mReadPtr q \<mapsto> R),
                        trace := trace w @ [AtomicLoad (mWritePtr q) memory_order_relaxed,
                                            AtomicLoad (mReadPtr q) memory_order_relaxed,
                                            AtomicLoad (mWritePtr q) memory_order_acquire,
                                            AtomicLoad (mReadPtr q) memory_order_relaxed,
                                            AtomicLoad (mReadPtr q) memory_order_relaxed,
                                            AtomicStore (mReadPtr q) R memory_order_release]\<rparr>)"
    by (simp add: read_n_def readBytes_def andThen_def availableToRead_eq [OF W R]
        beginRead_eq [where W = W and R = R] memcpy_out_def commitRead_eq [where R = R]
        W R C ret_def Let_def)
  ultimately show ?thesis by (simp add: keepW keepR)
qed

theorem zero_count_is_noop_witness:
  "isValid ex_queue
   \<and> (\<exists>w'. write_n 1 ex_queue [] 0 (ex_world 6 4 [1, 2, 3, 4, 5, 6, 0, 0]) = Inr (True, w')
         \<and> counters w' = counters (ex_world 6 4 [1, 2, 3, 4, 5, 6, 0, 0])
         \<and> bytes w' = bytes (ex_world 6 4 [1, 2, 3, 4, 5, 6, 0, 0]))
   \<and> (\<exists>w'. read_n 1 ex_queue 0 (ex_world 6 4 [1, 2, 3, 4, 5, 6, 0, 0]) = Inr ((True, []), w')
         \<and> counters w' = counters (ex_world 6 4 [1, 2, 3, 4, 5, 6, 0, 0])
         \<and> bytes w' = bytes (ex_world 6 4 [1, 2, 3, 4, 5, 6, 0, 0]))"
proof -
  let ?w = "ex_world 6 4 [1, 2, 3, 4, 5, 6, 0, 0]"
  have W: "counters ?w (mWritePtr ex_queue) = Some 6"
    and R: "counters ?w (mReadPtr ex_queue) = Some 4"
    by (simp_all add: ex_world_def ex_queue_def)
  have C: "getSize (mDesc ex_queue) \<noteq> 0" by (simp add: ex_queue_def ex_desc_def getSize_def)
  have "isValid ex_queue" by (simp add: isValid_def ex_queue_def)
  with zero_count_is_noop [OF W R C, of 1 "[]"] show ?thesis by simp
qed

text \<open>
  The claim as it is written, at the endpoint the constructor builds from the concrete
  descriptor with capacity 0: it is valid, both counters read 0, and a request of zero
  records reduces the position modulo 0.
\<close>

theorem zero_count_is_noop_counterexample:
  "MessageQueue_ctor ex_platform 1 stale_storage (ex_desc\<lparr>mSize := 0\<rparr>)
       (ex_world 77 99 [0, 0, 0, 0, 0, 0, 0, 0]) = Inr (ex_queue0, ex_constructed)
   \<and> isValid ex_queue0
   \<and> write_n 1 ex_queue0 [] 0 ex_constructed = Inl DivisionByZero
   \<and> read_n 1 ex_queue0 0 ex_constructed = Inl DivisionByZero"
proof -
  have c: "MessageQueue_ctor ex_platform 1 stale_storage (ex_desc\<lparr>mSize := 0\<rparr>)
       (ex_world 77 99 [0, 0, 0, 0, 0, 0, 0, 0]) = Inr (ex_queue0, ex_constructed)"
    using ctor_ignores_size [where pf = ex_platform and sizeofT = 1 and raw = stale_storage
        and Desc = ex_desc and s = 0 and w = "ex_world 77 99 [0, 0, 0, 0, 0, 0, 0, 0]"]
    by (simp add: ex_construction ex_queue0_def)
  have r: "isValid ex_queue0
   \<and> write_n 1 ex_queue0 [] 0 ex_constructed = Inl DivisionByZero
   \<and> read_n 1 ex_queue0 0 ex_constructed = Inl DivisionByZero"
    by (simp add: ring_run_defs ex_queue0_def ex_queue_def ex_desc_def ex_constructed_def
        isValid_def)
  from c r show ?thesis by (rule conjI)
qed

text \<open>
  C7 (as amended). Whenever both counters can be read, \<open>availableToRead\<close> returns \<open>W - R\<close>
  (64-bit unsigned subtraction) and \<open>availableToWrite\<close> returns the capacity minus that;
  when \<open>W - R\<close> equals the capacity, \<open>availableToWrite\<close> returns 0 and every write whose
  byte size \<open>sizeofT * count\<close> (the \<^verbatim>\<open>size_t\<close> product, modulo \<open>2 ^ 64\<close>) is not zero is
  refused, with no effect but the two relaxed loads.
\<close>

theorem availableToRead_availableToWrite:
  assumes W: "counters w (mWritePtr q) = Some W" and R: "counters w (mReadPtr q) = Some R"
  shows "availableToRead q w =
           Inr (W - R, w\<lparr>trace := trace w @ [AtomicLoad (mWritePtr q) memory_order_relaxed,
                                               AtomicLoad (mReadPtr q) memory_order_relaxed]\<rparr>)
       \<and> availableToWrite q w =
           Inr (getSize (mDesc q) - (W - R),
                w\<lparr>trace := trace w @ [AtomicLoad (mWritePtr q) memory_order_relaxed,
                                      AtomicLoad (mReadPtr q) memory_order_relaxed]\<rparr>)
       \<and> (W - R = getSize (mDesc q) \<longrightarrow>
            map_sum id fst (availableToWrite q w) = Inr 0
          \<and> (\<forall>sizeofT count data.
                sizeofT * count \<noteq> 0 \<longrightarrow>
                write_n sizeofT q data count w =
                  Inr (False, w\<lparr>trace := trace w @ [AtomicLoad (mWritePtr q) memory_order_relaxed,
                                                      AtomicLoad (mReadPtr q) memory_order_relaxed]\<rparr>)))"
proof (intro conjI impI allI)
  show "availableToRead q w =
           Inr (W - R, w\<lparr>trace := trace w @ [AtomicLoad (mWritePtr q) memory_order_relaxed,
                                               AtomicLoad (mReadPtr q) memory_order_relaxed]\<rparr>)"
    by (rule availableToRead_eq [OF W R])
next
  show "availableToWrite q w =
           Inr (getSize (mDesc q) - (W - R),
                w\<lparr>trace := trace w @ [AtomicLoad (mWritePtr q) memory_order_relaxed,
                                      AtomicLoad (mReadPtr q) memory_order_relaxed]\<rparr>)"
    by (rule availableToWrite_eq [OF W R])
next
  assume "W - R = getSize (mDesc q)"
  then show "map_sum id fst (availableToWrite q w) = Inr 0"
    by (simp add: availableToWrite_eq [OF W R])
next
  fix sizeofT count :: size_t and data
  assume full: "W - R = getSize (mDesc q)" and nz: "sizeofT * count \<noteq> 0"
  from nz have "0 < sizeofT * count" by (simp add: word_neq_0_conv)
  with full have "getSize (mDesc q) - (W - R) < sizeofT * count" by simp
  then show "write_n sizeofT q data count w =
                  Inr (False, w\<lparr>trace := trace w @ [AtomicLoad (mWritePtr q) memory_order_relaxed,
                                                      AtomicLoad (mReadPtr q) memory_order_relaxed]\<rparr>)"
    by (rule write_n_refused [OF W R])
qed

theorem availableToRead_availableToWrite_witness:
  "availableToRead ex_queue (ex_world 13 5 [1, 2, 3, 4, 5, 6, 7, 8]) =
     Inr (8, ex_world 13 5 [1, 2, 3, 4, 5, 6, 7, 8]
               \<lparr>trace := [AtomicLoad 0x20008 memory_order_relaxed,
                          AtomicLoad 0x10000 memory_order_relaxed]\<rparr>)
   \<and> map_sum id fst (availableToWrite ex_queue (ex_world 13 5 [1, 2, 3, 4, 5, 6, 7, 8])) = Inr 0
   \<and> write_n 1 ex_queue [9] 1 (ex_world 13 5 [1, 2, 3, 4, 5, 6, 7, 8]) =
     Inr (False, ex_world 13 5 [1, 2, 3, 4, 5, 6, 7, 8]
               \<lparr>trace := [AtomicLoad 0x20008 memory_order_relaxed,
                          AtomicLoad 0x10000 memory_order_relaxed]\<rparr>)"
proof -
  let ?w = "ex_world 13 5 [1, 2, 3, 4, 5, 6, 7, 8]"
  have W: "counters ?w (mWritePtr ex_queue) = Some 13"
    and R: "counters ?w (mReadPtr ex_queue) = Some 5"
    by (simp_all add: ex_world_def ex_queue_def)
  have C: "getSize (mDesc ex_queue) = 8" "mWritePtr ex_queue = 0x20008" "mReadPtr ex_queue = 0x10000"
    by (simp_all add: ex_queue_def ex_desc_def getSize_def)
  note t = availableToRead_availableToWrite [OF W R]
  have full: "(13 :: uint64_t) - 5 = getSize (mDesc ex_queue)" by (simp add: C)
  from t have a: "availableToRead ex_queue ?w =
     Inr (8, ?w\<lparr>trace := [AtomicLoad 0x20008 memory_order_relaxed,
                          AtomicLoad 0x10000 memory_order_relaxed]\<rparr>)"
    by (simp add: C ex_world_def)
  from t full have b: "map_sum id fst (availableToWrite ex_queue ?w) = Inr 0"
    by blast
  from t full have "\<forall>sizeofT count data.
                sizeofT * count \<noteq> 0 \<longrightarrow>
                write_n sizeofT ex_queue data count ?w =
                  Inr (False, ?w\<lparr>trace := trace ?w @ [AtomicLoad (mWritePtr ex_queue) memory_order_relaxed,
                                                      AtomicLoad (mReadPtr ex_queue) memory_order_relaxed]\<rparr>)"
    by blast
  then have "(1 :: size_t) * 1 \<noteq> 0 \<longrightarrow>
                write_n 1 ex_queue [9] 1 ?w =
                  Inr (False, ?w\<lparr>trace := trace ?w @ [AtomicLoad (mWritePtr ex_queue) memory_order_relaxed,
                                                      AtomicLoad (mReadPtr ex_queue) memory_order_relaxed]\<rparr>)"
    by blast
  then have c: "write_n 1 ex_queue [9] 1 ?w =
     Inr (False, ?w\<lparr>trace := [AtomicLoad 0x20008 memory_order_relaxed,
                          AtomicLoad 0x10000 memory_order_relaxed]\<rparr>)"
    by (simp add: C ex_world_def)
  from a b c show ?thesis by blast
qed

text \<open>
  The claim as it is written, at a full queue of four-byte records and a count of
  \<open>2 ^ 62\<close>: the count is not zero, its byte size is 0 in \<^verbatim>\<open>size_t\<close>, and the write is
  accepted.
\<close>

theorem availableToRead_availableToWrite_counterexample:
  "map_sum id fst (availableToRead ex_queue4 (ex_world 8 0 [1, 2, 3, 4, 5, 6, 7, 8])) = Inr 8
   \<and> map_sum id fst (availableToWrite ex_queue4 (ex_world 8 0 [1, 2, 3, 4, 5, 6, 7, 8])) = Inr 0
   \<and> (4611686018427387904 :: size_t) \<noteq> 0
   \<and> map_sum id fst
        (write_n 4 ex_queue4 [] 4611686018427387904 (ex_world 8 0 [1, 2, 3, 4, 5, 6, 7, 8]))
       = Inr True"
  by (simp add: ring_run_defs ex_queue4_def ex_queue_def ex_desc_def ex_world_def overlay_def)

text \<open>
  C8 (as amended). For a grantor with offset \<open>offs\<close> and extent \<open>E\<close> whose page-aligned offset
  \<open>aligned = (offs div PAGE_SIZE) * PAGE_SIZE\<close> and mapping length
  \<open>mlen = (offs - aligned) + E\<close> are below \<open>2 ^ 31\<close> (the source holds both in an \<^verbatim>\<open>int\<close>),
  and whose descriptor index is below \<open>2 ^ 31\<close> and inside the handle's array:
  \<open>mapGrantorDescr\<close> requests a shared read-write mapping of length \<open>mlen\<close> at file offset
  \<open>aligned\<close> on that descriptor, and returns the base plus \<open>offs - aligned\<close>, or null when
  the request fails; \<open>unmapGrantorDescr\<close> subtracts \<open>offs - aligned\<close> from the address and,
  when the result is not null, releases \<open>mlen\<close> bytes there.
\<close>

theorem map_unmap_grantor:
  assumes h: "mHandle (mDesc q) = Some handle"
    and i: "unat grantor_idx < length (mGrantors (mDesc q))"
    and g: "g = mGrantors (mDesc q) ! unat grantor_idx"
    and P: "PAGE_SIZE pf \<noteq> 0"
    and fd: "unat (fdIndex g) < length handle" "unat (fdIndex g) < 2 ^ 31"
    and A: "(unat (offset g) div unat (PAGE_SIZE pf)) * unat (PAGE_SIZE pf) < 2 ^ 31"
    and L: "unat (offset g) - (unat (offset g) div unat (PAGE_SIZE pf)) * unat (PAGE_SIZE pf)
              + unat (extent g) < 2 ^ 31"
  shows "(let offs = unat (offset g);
              aligned = (offs div unat (PAGE_SIZE pf)) * unat (PAGE_SIZE pf);
              mlen = (offs - aligned) + unat (extent g);
              t = trace w @ [Mmap nullptr (of_nat mlen) [PROT_READ, PROT_WRITE] MAP_SHARED
                               (handle ! unat (fdIndex g)) (of_nat aligned)]
          in mapGrantorDescr pf q grantor_idx w =
               Inr (if os_mmap pf t = MAP_FAILED then nullptr
                    else os_mmap pf t + of_nat (offs - aligned),
                    w\<lparr>trace := t\<rparr>)
           \<and> unmapGrantorDescr pf q addr grantor_idx w =
               Inr ((), if addr - of_nat (offs - aligned) = nullptr then w
                        else w\<lparr>trace := trace w @ [Munmap (addr - of_nat (offs - aligned))
                                                         (of_nat mlen)]\<rparr>))"
proof -
  let ?O = "offset g" and ?P = "PAGE_SIZE pf" and ?E = "extent g"
  let ?mo = "(?O div ?P) * ?P"
  let ?ml = "?O - ?mo + ?E"
  define aligned where "aligned = (unat ?O div unat ?P) * unat ?P"
  define within where "within = unat ?O - aligned"
  define mlen where "mlen = within + unat ?E"
  have umo: "unat ?mo = aligned" unfolding aligned_def by (rule unat_page_floor)
  have le: "?mo \<le> ?O" by (rule page_floor_le)
  have ud: "unat (?O - ?mo) = within" unfolding within_def using le by (simp add: unat_sub umo)
  have "mlen < 2 ^ 31" using L by (simp add: mlen_def within_def aligned_def)
  then have lt: "unat (?O - ?mo) + unat ?E < 2 ^ LENGTH(32)" by (simp add: ud mlen_def)
  have "unat ?ml = unat (?O - ?mo) + unat ?E"
    using lt unat_add_lem [of "?O - ?mo" ?E] by blast
  then have uml: "unat ?ml = mlen" by (simp only: ud mlen_def)
  have s1: "(scast ?mo :: 64 word) = of_nat aligned"
    using scast_small [of ?mo] A by (simp only: umo aligned_def)
  have s2: "(scast ?ml :: 64 word) = of_nat mlen"
    using scast_small [of ?ml] \<open>mlen < 2 ^ 31\<close> by (simp only: uml)
  have s3: "(ucast (?O - ?mo) :: 64 word) = of_nat within"
    by (simp only: ucast_nat64 ud)
  have v: "vector_at (getGrantors (mDesc q)) (unat grantor_idx) = ret g"
    using i g by (simp add: vector_at_def getGrantors_def)
  have a: "array_at handle (fdIndex g) = ret (handle ! unat (fdIndex g))"
    by (rule array_at_small [OF fd])
  have m: "mapGrantorDescr pf q grantor_idx w =
               Inr (if os_mmap pf (trace w @ [Mmap 0 (of_nat mlen) [PROT_READ, PROT_WRITE] MAP_SHARED
                               (handle ! unat (fdIndex g)) (of_nat aligned)]) = MAP_FAILED then 0
                    else os_mmap pf (trace w @ [Mmap 0 (of_nat mlen) [PROT_READ, PROT_WRITE] MAP_SHARED
                               (handle ! unat (fdIndex g)) (of_nat aligned)]) + of_nat within,
                    w\<lparr>trace := trace w @ [Mmap 0 (of_nat mlen) [PROT_READ, PROT_WRITE] MAP_SHARED
                               (handle ! unat (fdIndex g)) (of_nat aligned)]\<rparr>)"
    using P
    by (simp add: mapGrantorDescr_def getNativeHandle_def h v a s1 s2 s3 andThen_def ret_def
        mmap_def Let_def)
  have u: "unmapGrantorDescr pf q addr grantor_idx w =
               Inr ((), if addr - of_nat within = 0 then w
                        else w\<lparr>trace := trace w @ [Munmap (addr - of_nat within) (of_nat mlen)]\<rparr>)"
    using P
    by (simp add: unmapGrantorDescr_def getNativeHandle_def h v s2 s3 andThen_def ret_def
        munmap_def record_event_def Let_def)
  show ?thesis
    unfolding Let_def using m u
    unfolding mlen_def within_def aligned_def by (rule conjI)
qed

theorem map_unmap_grantor_witness:
  "mapGrantorDescr ex_platform ex_queue 1 (ex_world 0 0 []) =
     Inr (0x10008, ex_world 0 0 []
            \<lparr>trace := [Mmap 0 16 [PROT_READ, PROT_WRITE] MAP_SHARED 5 0]\<rparr>)
   \<and> unmapGrantorDescr ex_platform ex_queue 0x10008 1 (ex_world 0 0 []) =
     Inr ((), ex_world 0 0 []\<lparr>trace := [Munmap 0x10000 16]\<rparr>)"
proof -
  have h: "mHandle (mDesc ex_queue) = Some [5]" by (simp add: ex_queue_def ex_desc_def)
  have i: "unat (1 :: uint32_t) < length (mGrantors (mDesc ex_queue))"
    by (simp add: ex_queue_def ex_desc_def)
  have g: "\<lparr>fdIndex = 0, offset = 8, extent = 8\<rparr> = mGrantors (mDesc ex_queue) ! unat (1 :: uint32_t)"
    by (simp add: ex_queue_def ex_desc_def)
  have P: "PAGE_SIZE ex_platform \<noteq> 0" by (simp add: ex_platform_def)
  have P': "PAGE_SIZE ex_platform = 4096" by (simp add: ex_platform_def)
  from map_unmap_grantor [OF h i g P, of "ex_world 0 0 []" "0x10008"]
  show ?thesis
    by (simp add: P' Let_def ex_platform_def ex_world_def MAP_FAILED_def)
qed

text \<open>
  The claim as it is written, at a grantor of offset 0 and extent \<open>2 ^ 31\<close>: the length
  goes through an \<^verbatim>\<open>int\<close>, and the request that reaches \<^verbatim>\<open>mmap\<close> is not for \<open>2 ^ 31\<close> bytes.
  And at an address whose base is null, \<open>unmapGrantorDescr\<close> releases nothing.
\<close>

theorem map_unmap_grantor_counterexample:
  "map_sum id (\<lambda>r. trace (snd r)) (mapGrantorDescr ex_platform big_grantor_queue 0 (ex_world 0 0 []))
     = Inr [Mmap 0 0xFFFFFFFF80000000 [PROT_READ, PROT_WRITE] MAP_SHARED 5 0]
   \<and> (0xFFFFFFFF80000000 :: size_t) \<noteq> of_nat ((0 - (0 div 4096) * 4096) + 2147483648)
   \<and> map_sum id (\<lambda>r. trace (snd r)) (unmapGrantorDescr ex_platform ex_queue 8 1 (ex_world 0 0 []))
     = Inr []"
  by (simp add: mapGrantorDescr_def unmapGrantorDescr_def getNativeHandle_def getGrantors_def
      vector_at_def array_at_def mmap_def andThen_def ret_def big_grantor_queue_def ex_queue_def
      ex_desc_def ex_platform_def ex_world_def Let_def)

text \<open>
  C9 (what the code does). For every well-formed descriptor, a construction that returns
  has stored 0 into both counters after mapping them, so both read 0 afterwards; these
  are the only atomic stores it makes, and it passes \<^verbatim>\<open>memory_order_acquire\<close> to each,
  which is not \<^verbatim>\<open>memory_order_release\<close>.
\<close>

theorem ctor_zeroes_counters:
  assumes wf: "isHandleValid Desc" "kMinGrantorCount \<le> countGrantors Desc" "getQuantum Desc = sizeofT"
    and run: "MessageQueue_ctor pf sizeofT raw Desc w = Inr (q, w')"
  shows "counters w' (mReadPtr q) = Some 0 \<and> counters w' (mWritePtr q) = Some 0
       \<and> atomic_stores (trace w') =
           atomic_stores (trace w) @ [AtomicStore (mReadPtr q) 0 memory_order_acquire,
                                      AtomicStore (mWritePtr q) 0 memory_order_acquire]
       \<and> memory_order_acquire \<noteq> memory_order_release"
  using run wf
  by (auto simp: MessageQueue_ctor_def Let_def andThen_def CHECK_def ret_def raise_def
      atomic_store_def not_less
      split: sum.splits option.splits if_splits dest!: mapGrantorDescr_stores)

theorem ctor_zeroes_counters_witness:
  "MessageQueue_ctor ex_platform 1 stale_storage ex_desc (ex_world 77 99 [0, 0, 0, 0, 0, 0, 0, 0]) =
     Inr (ex_queue, ex_constructed)
   \<and> counters ex_constructed 0x10000 = Some 0 \<and> counters ex_constructed 0x20008 = Some 0
   \<and> atomic_stores (trace ex_constructed) =
       [AtomicStore 0x10000 0 memory_order_acquire, AtomicStore 0x20008 0 memory_order_acquire]"
proof -
  have wf: "isHandleValid ex_desc" "kMinGrantorCount \<le> countGrantors ex_desc" "getQuantum ex_desc = 1"
    by (simp_all add: isHandleValid_def kMinGrantorCount_def countGrantors_def getQuantum_def
        ex_desc_def)
  from ctor_zeroes_counters [OF wf ex_construction] ex_construction
  show ?thesis by (simp add: ex_queue_def ex_world_def)
qed

text \<open>
  C10. \<open>getQuantumCount\<close> divides by the descriptor's quantum with no check, so a quantum
  of 0 is a division by zero; the constructor turns such a descriptor away only through
  the comparison with the record width (which is never 0), maps nothing (the endpoint is
  not valid when a pointer of its storage was null) and leaves the accessor callable. The constructor does not look at the capacity: with any capacity \<open>s\<close> it does
  what it does with the descriptor's own, and on the endpoint it builds from a well-formed
  descriptor of capacity 0, which is valid, \<open>beginWrite\<close> and \<open>beginRead\<close> reduce the position
  modulo 0.
\<close>

theorem degenerate_geometry_unguarded:
  "(getQuantum (mDesc q) = 0 \<longrightarrow> getQuantumCount q = Inl DivisionByZero)
   \<and> (sizeofT \<noteq> 0 \<and> getQuantum Desc = 0 \<longrightarrow>
        (\<exists>q0. MessageQueue_ctor pf sizeofT raw Desc w = Inr (q0, w)
              \<and> (mRing raw = nullptr \<or> mReadPtr raw = nullptr \<or> mWritePtr raw = nullptr
                   \<longrightarrow> \<not> isValid q0)
              \<and> getQuantumCount q0 = Inl DivisionByZero))
   \<and> MessageQueue_ctor pf sizeofT raw (Desc\<lparr>mSize := s\<rparr>) w =
        map_sum id (\<lambda>(q, w'). (q\<lparr>mDesc := Desc\<lparr>mSize := s\<rparr>\<rparr>, w'))
          (MessageQueue_ctor pf sizeofT raw Desc w)
   \<and> (isHandleValid Desc \<and> kMinGrantorCount \<le> countGrantors Desc \<and> getQuantum Desc = sizeofT
        \<and> getSize Desc = 0 \<and> MessageQueue_ctor pf sizeofT raw Desc w = Inr (q', w') \<longrightarrow>
        isValid q' \<and> beginWrite q' n w' = Inl DivisionByZero
                  \<and> beginRead q' n w' = Inl DivisionByZero)"
proof (intro conjI impI)
  assume "getQuantum (mDesc q) = 0"
  then show "getQuantumCount q = Inl DivisionByZero" by (simp add: getQuantumCount_def)
next
  assume a: "sizeofT \<noteq> 0 \<and> getQuantum Desc = 0"
  then have bad: "\<not> isHandleValid Desc \<or> countGrantors Desc < kMinGrantorCount
                  \<or> getQuantum Desc \<noteq> sizeofT" by auto
  have "MessageQueue_ctor pf sizeofT raw Desc w = Inr (raw\<lparr>mDesc := Desc\<rparr>, w)"
    by (rule ctor_malformed [OF bad])
  moreover have "getQuantumCount (raw\<lparr>mDesc := Desc\<rparr>) = Inl DivisionByZero"
    using a by (simp add: getQuantumCount_def)
  moreover have "mRing raw = nullptr \<or> mReadPtr raw = nullptr \<or> mWritePtr raw = nullptr
                   \<longrightarrow> \<not> isValid (raw\<lparr>mDesc := Desc\<rparr>)"
    by (auto simp: isValid_def)
  ultimately show "\<exists>q0. MessageQueue_ctor pf sizeofT raw Desc w = Inr (q0, w)
              \<and> (mRing raw = nullptr \<or> mReadPtr raw = nullptr \<or> mWritePtr raw = nullptr
                   \<longrightarrow> \<not> isValid q0)
              \<and> getQuantumCount q0 = Inl DivisionByZero" by blast
next
  show "MessageQueue_ctor pf sizeofT raw (Desc\<lparr>mSize := s\<rparr>) w =
        map_sum id (\<lambda>(q, w'). (q\<lparr>mDesc := Desc\<lparr>mSize := s\<rparr>\<rparr>, w'))
          (MessageQueue_ctor pf sizeofT raw Desc w)"
    by (rule ctor_ignores_size)
next
  assume a: "isHandleValid Desc \<and> kMinGrantorCount \<le> countGrantors Desc \<and> getQuantum Desc = sizeofT
        \<and> getSize Desc = 0 \<and> MessageQueue_ctor pf sizeofT raw Desc w = Inr (q', w')"
  then have m: "mDesc q' = Desc \<and> isValid q'
       \<and> counters w' (mReadPtr q') = Some 0 \<and> counters w' (mWritePtr q') = Some 0
       \<and> bytes w' = bytes w"
    by (intro ctor_mapped [where pf = pf and raw = raw and sizeofT = sizeofT]) simp_all
  then show "isValid q'" by simp
  from m a have c: "counters w' (mWritePtr q') \<noteq> None" "counters w' (mReadPtr q') \<noteq> None"
    "getSize (mDesc q') = 0" by simp_all
  show "beginWrite q' n w' = Inl DivisionByZero" by (rule begin_on_empty_ring(1) [OF c])
  show "beginRead q' n w' = Inl DivisionByZero" by (rule begin_on_empty_ring(2) [OF c])
qed

theorem degenerate_geometry_unguarded_witness:
  "getQuantumCount (null_storage\<lparr>mDesc := ex_desc\<lparr>mQuantum := 0\<rparr>\<rparr>) = Inl DivisionByZero
   \<and> MessageQueue_ctor ex_platform 1 null_storage (ex_desc\<lparr>mQuantum := 0\<rparr>) (ex_world 0 0 []) =
       Inr (null_storage\<lparr>mDesc := ex_desc\<lparr>mQuantum := 0\<rparr>\<rparr>, ex_world 0 0 [])
   \<and> MessageQueue_ctor ex_platform 1 stale_storage (ex_desc\<lparr>mSize := 0\<rparr>)
        (ex_world 77 99 [0, 0, 0, 0, 0, 0, 0, 0]) =
       Inr (ex_queue\<lparr>mDesc := ex_desc\<lparr>mSize := 0\<rparr>\<rparr>, ex_constructed)
   \<and> isValid (ex_queue\<lparr>mDesc := ex_desc\<lparr>mSize := 0\<rparr>\<rparr>)
   \<and> beginWrite (ex_queue\<lparr>mDesc := ex_desc\<lparr>mSize := 0\<rparr>\<rparr>) 4 ex_constructed = Inl DivisionByZero
   \<and> beginRead (ex_queue\<lparr>mDesc := ex_desc\<lparr>mSize := 0\<rparr>\<rparr>) 4 ex_constructed = Inl DivisionByZero"
proof -
  let ?w = "ex_world 77 99 [0, 0, 0, 0, 0, 0, 0, 0]"
  let ?d0 = "ex_desc\<lparr>mSize := 0\<rparr>"
  let ?q0 = "ex_queue\<lparr>mDesc := ?d0\<rparr>"
  note t1 = degenerate_geometry_unguarded
    [of "null_storage\<lparr>mDesc := ex_desc\<lparr>mQuantum := 0\<rparr>\<rparr>" 1 "ex_desc\<lparr>mQuantum := 0\<rparr>"
        ex_platform null_storage "ex_world 0 0 []"]
  from t1 have a: "getQuantumCount (null_storage\<lparr>mDesc := ex_desc\<lparr>mQuantum := 0\<rparr>\<rparr>) = Inl DivisionByZero"
    by (simp add: getQuantum_def)
  have b: "MessageQueue_ctor ex_platform 1 null_storage (ex_desc\<lparr>mQuantum := 0\<rparr>) (ex_world 0 0 []) =
       Inr (null_storage\<lparr>mDesc := ex_desc\<lparr>mQuantum := 0\<rparr>\<rparr>, ex_world 0 0 [])"
    by (rule ctor_malformed) (simp add: getQuantum_def)
  note t2 = degenerate_geometry_unguarded
    [of ex_queue 1 ?d0 ex_platform stale_storage ?w 0 ?q0 ex_constructed 4]
  from t2 have "MessageQueue_ctor ex_platform 1 stale_storage (?d0\<lparr>mSize := 0\<rparr>) ?w =
        map_sum id (\<lambda>(q, w'). (q\<lparr>mDesc := ?d0\<lparr>mSize := 0\<rparr>\<rparr>, w'))
          (MessageQueue_ctor ex_platform 1 stale_storage ?d0 ?w)"
    by blast
  have c: "MessageQueue_ctor ex_platform 1 stale_storage ?d0 ?w = Inr (?q0, ex_constructed)"
    using ctor_ignores_size [where pf = ex_platform and sizeofT = 1 and raw = stale_storage and Desc = ex_desc and s = 0 and w = ?w]
    by (simp add: ex_construction)
  have wf: "isHandleValid ?d0 \<and> kMinGrantorCount \<le> countGrantors ?d0 \<and> getQuantum ?d0 = 1
        \<and> getSize ?d0 = 0"
    by (simp add: isHandleValid_def kMinGrantorCount_def countGrantors_def getQuantum_def
        getSize_def ex_desc_def)
  from t2 wf c have d: "isValid ?q0 \<and> beginWrite ?q0 4 ex_constructed = Inl DivisionByZero
                  \<and> beginRead ?q0 4 ex_constructed = Inl DivisionByZero"
    by blast
  from a b c d show ?thesis by blast
qed

end
